theory Spec2Isabelle
  imports Complex_Main "HOL-Library.Sublist" "HOL-Library.Multiset"
begin

section \<open>Python values\<close>

text \<open>
  The exceptions of the modelled code are values. A call into a client library
  (psycopg2, valkey) either returns or raises an exception carrying a message; the
  workers only ever look at the message (\<^verbatim>\<open>'NOGROUP' in str(e)\<close>).
\<close>

datatype py_error = ZeroDivisionError | IndexError | ValueError | BackendError string

text \<open>Python list indexing: a negative index counts from the end, out of range raises.\<close>

definition py_index :: "'a list \<Rightarrow> int \<Rightarrow> py_error + 'a" where
  "py_index xs i =
     (if 0 \<le> i \<and> i < int (length xs) then Inr (xs ! nat i)
      else if i < 0 \<and> - int (length xs) \<le> i then Inr (xs ! nat (int (length xs) + i))
      else Inl IndexError)"

text \<open>True division \<^verbatim>\<open>a / b\<close>, which raises on a zero divisor.\<close>

definition py_truediv :: "rat \<Rightarrow> rat \<Rightarrow> py_error + rat" where
  "py_truediv a b = (if b = 0 then Inl ZeroDivisionError else Inr (a / b))"

text \<open>\<^verbatim>\<open>needle in haystack\<close> on strings: a contiguous substring.\<close>

definition py_in :: "string \<Rightarrow> string \<Rightarrow> bool" where
  "py_in needle haystack = sublist needle haystack"

text \<open>
  Evaluation in sequence: the first exception raised ends the computation.
\<close>

definition bind_err :: "'e + 'a \<Rightarrow> ('a \<Rightarrow> 'e + 'b) \<Rightarrow> 'e + 'b" where
  "bind_err r f = (case r of Inl e \<Rightarrow> Inl e | Inr x \<Rightarrow> f x)"

section \<open>MetricsCollector\<close>

text \<open>
  \<^verbatim>\<open>worker_pg.py\<close> and \<^verbatim>\<open>worker_valkey.py\<close> each declare a class
  \<^verbatim>\<open>MetricsCollector\<close>; the two differ only in the recording method
  (\<^verbatim>\<open>record_job\<close> in the first, \<^verbatim>\<open>record_jobs\<close> in the second).
  Latency samples are Python floats; they are modelled as rationals, so sums and
  quotients are exact. The file system is a map from a path to the lines appended
  to it so far.
\<close>

record collector =
  output_file :: string
  jobs_processed :: int
  latencies :: "rat list"
  start_time :: rat

definition new_collector :: "string \<Rightarrow> rat \<Rightarrow> collector" where
  "new_collector path t0 =
     \<lparr>output_file = path, jobs_processed = 0, latencies = [], start_time = t0\<rparr>"

text \<open>
  The body of each method runs under \<^verbatim>\<open>with self.lock\<close>, so a method call is one
  atomic transition of the collector.
\<close>

definition record_job :: "rat \<Rightarrow> collector \<Rightarrow> collector" where
  "record_job latency_ms c =
     c\<lparr>jobs_processed := jobs_processed c + 1,
       latencies := latencies c @ [latency_ms]\<rparr>"

definition record_jobs :: "rat list \<Rightarrow> collector \<Rightarrow> collector" where
  "record_jobs latencies_list c =
     c\<lparr>jobs_processed := jobs_processed c + int (length latencies_list),
       latencies := latencies c @ latencies_list\<rparr>"

text \<open>
  \<^verbatim>\<open>int(n * 0.50)\<close>, \<^verbatim>\<open>int(n * 0.95)\<close>, \<^verbatim>\<open>int(n * 0.99)\<close>: the product of the
  length with a percentage, truncated. The percentage is given in hundredths and the
  product is taken exactly. The double product truncates to the same integer as long as
  its rounding error stays below one hundredth, which it does for every list length
  below \<open>2 ^ 40\<close>.
\<close>

definition pct_index :: "nat \<Rightarrow> nat \<Rightarrow> int" where
  "pct_index n pct = (int n * int pct) div 100"

text \<open>The three clock readings taken by \<^verbatim>\<open>get_metrics\<close>, in the order they are taken.\<close>

record clock =
  datetime_now :: rat
  time_elapsed :: rat
  time_throughput :: rat

record metrics =
  timestamp :: rat
  elapsed :: rat
  m_jobs_processed :: int
  throughput :: rat
  latency_p50 :: rat
  latency_p95 :: rat
  latency_p99 :: rat
  latency_min :: rat
  latency_max :: rat
  latency_avg :: rat

text \<open>An entry \<^verbatim>\<open>xs[i] if n > 0 else 0\<close> of the dictionary literal.\<close>

definition guarded_index :: "nat \<Rightarrow> rat list \<Rightarrow> int \<Rightarrow> py_error + rat" where
  "guarded_index n xs i = (if n > 0 then py_index xs i else Inr 0)"

definition guarded_avg :: "nat \<Rightarrow> rat list \<Rightarrow> py_error + rat" where
  "guarded_avg n xs = (if n > 0 then py_truediv (sum_list xs) (of_nat n) else Inr 0)"

definition get_metrics :: "collector \<Rightarrow> clock \<Rightarrow> py_error + metrics option" where
  "get_metrics c clk =
     (if latencies c = [] then Inr None
      else
        let sorted_latencies = sort (latencies c);
            n = length sorted_latencies
        in
          bind_err (py_truediv (of_int (jobs_processed c)) (time_throughput clk - start_time c))
            (\<lambda>thr.
          bind_err (guarded_index n sorted_latencies (pct_index n 50)) (\<lambda>p50.
          bind_err (guarded_index n sorted_latencies (pct_index n 95)) (\<lambda>p95.
          bind_err (guarded_index n sorted_latencies (pct_index n 99)) (\<lambda>p99.
          bind_err (guarded_index n sorted_latencies 0) (\<lambda>lo.
          bind_err (guarded_index n sorted_latencies (- 1)) (\<lambda>hi.
          bind_err (guarded_avg n sorted_latencies) (\<lambda>avg.
            Inr (Some \<lparr>timestamp = datetime_now clk,
                       elapsed = time_elapsed clk - start_time c,
                       m_jobs_processed = jobs_processed c,
                       throughput = thr,
                       latency_p50 = p50, latency_p95 = p95, latency_p99 = p99,
                       latency_min = lo, latency_max = hi, latency_avg = avg\<rparr>)))))))))"

type_synonym filesystem = "string \<Rightarrow> metrics list"

definition save_metrics :: "collector \<Rightarrow> clock \<Rightarrow> filesystem \<Rightarrow> py_error + filesystem" where
  "save_metrics c clk fs =
     (case get_metrics c clk of
        Inl e \<Rightarrow> Inl e
      | Inr None \<Rightarrow> Inr fs
      | Inr (Some m) \<Rightarrow> Inr (fs(output_file c := fs (output_file c) @ [m])))"

text \<open>
  A sequence of recording calls, in the order in which they take the lock. Calls of
  either recording method are allowed in one sequence.
\<close>

datatype record_call = Record_job rat | Record_jobs "rat list"

fun apply_call :: "record_call \<Rightarrow> collector \<Rightarrow> collector" where
  "apply_call (Record_job x) c = record_job x c"
| "apply_call (Record_jobs xs) c = record_jobs xs c"

fun apply_calls :: "record_call list \<Rightarrow> collector \<Rightarrow> collector" where
  "apply_calls [] c = c"
| "apply_calls (r # rs) c = apply_calls rs (apply_call r c)"

subsection \<open>The recording call, statement by statement\<close>

text \<open>
  Several worker threads share one collector. A thread in a recording call is at one of
  four places: outside the call, inside \<^verbatim>\<open>with self.lock\<close> before the first statement,
  after \<^verbatim>\<open>self.jobs_processed += ...\<close>, and after the append to \<^verbatim>\<open>self.latencies\<close>. The
  lock is a \<^verbatim>\<open>threading.Lock\<close>: it is taken only while no thread holds it. The samples
  of the call in progress are \<^verbatim>\<open>latencies_list\<close>; for \<^verbatim>\<open>record_job\<close> they are the one
  sample \<^verbatim>\<open>latency_ms\<close>.
\<close>

datatype place = Outside | Entered | Counted | Stored

record shared =
  lock :: "nat option"
  coll :: collector
  thread :: "nat \<Rightarrow> place \<times> rat list"

definition initial :: "string \<Rightarrow> rat \<Rightarrow> shared" where
  "initial path t0 =
     \<lparr>lock = None, coll = new_collector path t0, thread = (\<lambda>t. (Outside, []))\<rparr>"

inductive step :: "shared \<Rightarrow> shared \<Rightarrow> bool" where
  acquire:
    "lock s = None \<Longrightarrow> fst (thread s t) = Outside \<Longrightarrow>
     step s (s\<lparr>lock := Some t, thread := (thread s)(t := (Entered, xs))\<rparr>)"
| count:
    "thread s t = (Entered, xs) \<Longrightarrow>
     step s (s\<lparr>coll := (coll s)\<lparr>jobs_processed := jobs_processed (coll s) + int (length xs)\<rparr>,
              thread := (thread s)(t := (Counted, xs))\<rparr>)"
| store:
    "thread s t = (Counted, xs) \<Longrightarrow>
     step s (s\<lparr>coll := (coll s)\<lparr>latencies := latencies (coll s) @ xs\<rparr>,
              thread := (thread s)(t := (Stored, xs))\<rparr>)"
| release:
    "thread s t = (Stored, xs) \<Longrightarrow>
     step s (s\<lparr>lock := None, thread := (thread s)(t := (Outside, []))\<rparr>)"

inductive reachable :: "shared \<Rightarrow> shared \<Rightarrow> bool" where
  start: "reachable s s"
| further: "reachable s s' \<Longrightarrow> step s' s'' \<Longrightarrow> reachable s s''"

text \<open>
  What holds of the shared state between two statements of any thread: outside the
  lock nobody is in a call and the counter is the number of samples; inside, only the
  holder is in a call, and the counter is ahead of the samples exactly between the two
  statements of the holder.
\<close>

definition consistent :: "shared \<Rightarrow> bool" where
  "consistent s =
     (case lock s of
        None \<Rightarrow> (\<forall>t. fst (thread s t) = Outside)
                 \<and> jobs_processed (coll s) = int (length (latencies (coll s)))
      | Some h \<Rightarrow> (\<forall>t. t \<noteq> h \<longrightarrow> fst (thread s t) = Outside)
                 \<and> (case thread s h of
                       (Outside, xs) \<Rightarrow> False
                     | (Entered, xs) \<Rightarrow>
                         jobs_processed (coll s) = int (length (latencies (coll s)))
                     | (Counted, xs) \<Rightarrow>
                         jobs_processed (coll s)
                           = int (length (latencies (coll s))) + int (length xs)
                     | (Stored, xs) \<Rightarrow>
                         jobs_processed (coll s) = int (length (latencies (coll s)))))"

section \<open>PostgreSQLWorker: partition assignment\<close>

text \<open>
  \<^verbatim>\<open>PostgreSQLWorker.__init__\<close> (\<^verbatim>\<open>worker_pg.py\<close>), the part that computes
  \<^verbatim>\<open>self.partitions\<close>. \<^verbatim>\<open>BENCHMARK['num_workers']\<close> and
  \<^verbatim>\<open>QUEUE_TYPES['partitioned']['partitions']\<close> are parameters; \<^verbatim>\<open>config.py\<close> sets them to
  10 and 16. Python's \<^verbatim>\<open>//\<close> and \<^verbatim>\<open>%\<close> on integers round towards minus infinity, as
  \<open>div\<close> and \<open>mod\<close> on \<open>int\<close> do, and raise on a zero divisor.
\<close>

datatype queue_type = Skip_locked | Delete_returning | Partitioned

definition py_floordiv :: "int \<Rightarrow> int \<Rightarrow> py_error + int" where
  "py_floordiv a b = (if b = 0 then Inl ZeroDivisionError else Inr (a div b))"

definition py_mod :: "int \<Rightarrow> int \<Rightarrow> py_error + int" where
  "py_mod a b = (if b = 0 then Inl ZeroDivisionError else Inr (a mod b))"

text \<open>\<^verbatim>\<open>range(n)\<close> as a list.\<close>

definition py_range :: "int \<Rightarrow> int list" where
  "py_range n = [0..n - 1]"

definition assign_partitions :: "int \<Rightarrow> int \<Rightarrow> int \<Rightarrow> py_error + int list" where
  "assign_partitions num_workers num_partitions worker_id =
     bind_err (py_floordiv num_partitions num_workers) (\<lambda>q.
       let partitions_per_worker = max 1 q in
       bind_err (py_mod worker_id num_partitions) (\<lambda>start_partition.
         Inr (map (\<lambda>i. (start_partition + i) mod num_partitions)
                  (py_range partitions_per_worker))))"

definition worker_partitions ::
    "queue_type \<Rightarrow> int \<Rightarrow> int \<Rightarrow> int \<Rightarrow> py_error + int list option" where
  "worker_partitions qt num_workers num_partitions worker_id =
     (if qt = Partitioned
      then bind_err (assign_partitions num_workers num_partitions worker_id)
             (\<lambda>ps. Inr (Some ps))
      else Inr None)"

text \<open>
  \<^verbatim>\<open>main\<close> creates the workers \<^verbatim>\<open>PostgreSQLWorker(i, ...)\<close> for \<^verbatim>\<open>i in range(workers)\<close>;
  the partition lists of the pool, in that order.
\<close>

definition pool_partitions :: "int \<Rightarrow> int \<Rightarrow> int \<Rightarrow> (py_error + int list) list" where
  "pool_partitions workers num_workers num_partitions =
     map (assign_partitions num_workers num_partitions) (py_range workers)"
text \<open>Partition \<open>p\<close> is in the list of at least one worker of the pool.\<close>

definition pool_owns :: "int \<Rightarrow> int \<Rightarrow> int \<Rightarrow> int \<Rightarrow> bool" where
  "pool_owns workers num_workers num_partitions p =
     list_ex (\<lambda>r. case r of Inl e \<Rightarrow> False | Inr ps \<Rightarrow> p \<in> set ps)
       (pool_partitions workers num_workers num_partitions)"

section \<open>Producer\<close>

text \<open>
  \<^verbatim>\<open>producer.py\<close>. The producer writes batches of jobs to a PostgreSQL table through a
  connection with \<^verbatim>\<open>autocommit = False\<close>, or to a Valkey stream through a pipeline. The
  table is the list of its committed rows together with the rows of the open
  transaction; the stream is the list of its entries. What the outside world does
  during one batch is an input: the random draws, and for each client call made inside
  \<^verbatim>\<open>try\<close> whether it raises and with which message. A write that raises may have
  stored some of the rows of the batch before it raised. The calls outside \<^verbatim>\<open>try\<close>
  (\<^verbatim>\<open>conn.cursor()\<close>, the payload generator) return. Of the printed output only the
  error lines are kept.
\<close>

datatype backend = Pg | Valkey

record job =
  partition_key :: "int option"
  payload_id :: int
  priority :: int

record batch_env =
  rand_priority :: "nat \<Rightarrow> int"
  rand_partition :: "nat \<Rightarrow> int"
  execute_raises :: "string option"
  stored_before_raise :: nat
  commit_raises :: "string option"
  rollback_raises :: "string option"

record producer =
  backend :: backend
  queue_type :: queue_type
  rate :: int
  duration :: int
  total_jobs :: int
  jobs_produced :: int
  committed :: "job list"
  uncommitted :: "job list"
  stream :: "job list"
  printed :: "string list"

text \<open>\<^verbatim>\<open>Producer.__init__\<close>, without the set-up of the connection.\<close>

definition new_producer :: "backend \<Rightarrow> queue_type \<Rightarrow> int \<Rightarrow> int \<Rightarrow> producer" where
  "new_producer b qt r d =
     \<lparr>backend = b, queue_type = qt, rate = r, duration = d, total_jobs = r * d,
      jobs_produced = 0, committed = [], uncommitted = [], stream = [], printed = []\<rparr>"

text \<open>
  The list \<^verbatim>\<open>jobs\<close> built by the first loop of \<^verbatim>\<open>produce_pg_batch\<close>. Every payload of
  a batch carries the value \<^verbatim>\<open>self.jobs_produced\<close> has when the batch starts.
\<close>

definition make_jobs :: "batch_env \<Rightarrow> producer \<Rightarrow> int \<Rightarrow> job list" where
  "make_jobs e p batch_size =
     map (\<lambda>i. \<lparr>partition_key =
                  (if queue_type p = Partitioned then Some (rand_partition e i) else None),
                payload_id = jobs_produced p,
                priority = rand_priority e i\<rparr>)
         [0..<nat batch_size]"

text \<open>
  The handler \<^verbatim>\<open>except Exception as e\<close> of \<^verbatim>\<open>produce_pg_batch\<close>: roll back, print,
  return 0. An exception of \<^verbatim>\<open>rollback\<close> itself leaves the method.
\<close>

definition pg_batch_failed ::
    "batch_env \<Rightarrow> string \<Rightarrow> producer \<Rightarrow> py_error + int \<times> producer" where
  "pg_batch_failed e msg p =
     (case rollback_raises e of
        Some m \<Rightarrow> Inl (BackendError m)
      | None \<Rightarrow>
          Inr (0, p\<lparr>uncommitted := [],
                    printed := printed p @ [''Error producing batch: '' @ msg]\<rparr>))"

definition produce_pg_batch ::
    "batch_env \<Rightarrow> int \<Rightarrow> producer \<Rightarrow> py_error + int \<times> producer" where
  "produce_pg_batch e batch_size p =
     (let jobs = make_jobs e p batch_size in
      case execute_raises e of
        Some msg \<Rightarrow>
          pg_batch_failed e msg
            (p\<lparr>uncommitted := uncommitted p @ take (stored_before_raise e) jobs\<rparr>)
      | None \<Rightarrow>
          let p1 = p\<lparr>uncommitted := uncommitted p @ jobs\<rparr> in
          (case commit_raises e of
             Some msg \<Rightarrow> pg_batch_failed e msg p1
           | None \<Rightarrow>
               Inr (batch_size,
                    p1\<lparr>committed := committed p1 @ uncommitted p1,
                       uncommitted := [],
                       jobs_produced := jobs_produced p1 + batch_size\<rparr>)))"

text \<open>
  \<^verbatim>\<open>produce_valkey_batch\<close>: the whole body is inside \<^verbatim>\<open>try\<close>, and nothing is undone
  when \<^verbatim>\<open>pipeline.execute()\<close> raises.
\<close>

definition produce_valkey_batch ::
    "batch_env \<Rightarrow> int \<Rightarrow> producer \<Rightarrow> py_error + int \<times> producer" where
  "produce_valkey_batch e batch_size p =
     (let jobs = map (\<lambda>j. j\<lparr>partition_key := None\<rparr>) (make_jobs e p batch_size) in
      case execute_raises e of
        Some msg \<Rightarrow>
          Inr (0, p\<lparr>stream := stream p @ take (stored_before_raise e) jobs,
                    printed := printed p @ [''Error producing batch: '' @ msg]\<rparr>)
      | None \<Rightarrow>
          Inr (batch_size,
               p\<lparr>stream := stream p @ jobs,
                 jobs_produced := jobs_produced p + batch_size\<rparr>))"

definition produce_batch ::
    "batch_env \<Rightarrow> int \<Rightarrow> producer \<Rightarrow> py_error + int \<times> producer" where
  "produce_batch e batch_size p =
     (if backend p = Pg then produce_pg_batch e batch_size p
      else produce_valkey_batch e batch_size p)"

text \<open>
  The loop of \<^verbatim>\<open>run\<close>. It runs for as long as \<^verbatim>\<open>jobs_produced < total_jobs\<close>, which may
  be for ever; the list holds what the outside world does during the successive
  batches, and the result is \<open>None\<close> when the list is used up before the loop ends.
  Sleeping and the progress line do not change the state; the modulus in the progress
  test has the divisor \<^verbatim>\<open>rate * 10\<close>, which is not zero once \<^verbatim>\<open>run\<close> has computed the
  interval. An interrupt from the keyboard is not modelled.
\<close>

fun run_loop :: "int \<Rightarrow> batch_env list \<Rightarrow> producer \<Rightarrow> (py_error + producer) option" where
  "run_loop batch_size [] p =
     (if jobs_produced p < total_jobs p then None else Some (Inr p))"
| "run_loop batch_size (e # es) p =
     (if jobs_produced p < total_jobs p
      then (case produce_batch e batch_size p of
              Inl err \<Rightarrow> Some (Inl err)
            | Inr (produced, p') \<Rightarrow> run_loop batch_size es p')
      else Some (Inr p))"

definition run :: "batch_env list \<Rightarrow> producer \<Rightarrow> (py_error + producer) option" where
  "run envs p =
     (let batch_size = max 1 (rate p div 100) in
      case py_truediv (of_int batch_size) (of_int (rate p)) of
        Inl err \<Rightarrow> Some (Inl err)
      | Inr interval \<Rightarrow> run_loop batch_size envs p)"

text \<open>A batch during which no client call raises.\<close>

definition quiet :: "batch_env" where
  "quiet = \<lparr>rand_priority = (\<lambda>i. 0), rand_partition = (\<lambda>i. 0), execute_raises = None,
            stored_before_raise = 0, commit_raises = None, rollback_raises = None\<rparr>"

section \<open>ValkeyWorker\<close>

text \<open>
  \<^verbatim>\<open>worker_valkey.py\<close>. A stream entry is its id and the one field the worker reads,
  \<^verbatim>\<open>created_at\<close>: absent (or empty), an ISO timestamp, or bytes that do not decode to one,
  on which \<^verbatim>\<open>decode\<close> or \<^verbatim>\<open>datetime.fromisoformat\<close> raises.
\<close>

type_synonym msg_id = string

datatype created_field = Absent | Iso rat | Garbled

type_synonym message = "msg_id \<times> created_field"

subsection \<open>The server, as the worker sees it\<close>

text \<open>
  The Valkey server is outside the repository. Of its state the model keeps whether the
  consumer group exists and the ids of the group's pending entries (delivered and not
  yet acknowledged), with the documented effect of the commands on them:
  \<^verbatim>\<open>XGROUP CREATE\<close> creates the group or fails with \<^verbatim>\<open>BUSYGROUP\<close> if it exists;
  \<^verbatim>\<open>XREADGROUP\<close> and \<^verbatim>\<open>XPENDING\<close> fail with \<^verbatim>\<open>NOGROUP\<close> if it does not;
  \<^verbatim>\<open>XREADGROUP\<close> adds the entries it delivers to the pending entries and \<^verbatim>\<open>XACK\<close>
  removes the ids it is given; \<^verbatim>\<open>XCLAIM\<close> changes the owner of an entry and leaves it
  pending. Everything else is an input of one loop iteration: the clock, the entries
  waiting in the stream, the idle times, the reply to each \<^verbatim>\<open>XCLAIM\<close>, and for each
  command whether the call raises for a reason of its own (a lost connection, a
  timeout) and with which message.
\<close>

record server =
  group_exists :: bool
  pending :: "msg_id list"

record iteration =
  now :: "nat \<Rightarrow> rat"
  incoming :: "message list"
  idle_ms :: "msg_id \<Rightarrow> int"
  xclaim_reply :: "msg_id \<Rightarrow> string + message list"
  xgroup_create_raises :: "string option"
  xreadgroup_raises :: "string option"
  xack_raises :: "string option"
  xpending_raises :: "string option"

datatype client_call =
  XGroupCreate | XReadGroup | XAck "msg_id list" | XPendingRange | XClaim msg_id

datatype log_line =
    Warning string
  | Error_processing_message msg_id
  | Error_acknowledging_batch string
  | Consumer_group_not_found
  | Error_reading_stream string
  | Error_claiming_message msg_id
  | Error_acknowledging_claimed_batch string
  | Error_claiming_pending_messages string

definition busygroup_message :: string where
  "busygroup_message = ''BUSYGROUP'' @ '' Consumer Group name already exists''"

definition nogroup_message :: string where
  "nogroup_message = ''NOGROUP'' @ '' No such key or consumer group''"

text \<open>
  The worker: its own fields, the collector it shares, the server it talks to, the
  number of clock readings it has taken, the lines it has printed and the client calls
  it has made, in order.
\<close>

record valkey_worker =
  worker_id :: string
  batch_size :: int
  worker_jobs_processed :: int
  shared_metrics :: collector
  valkey_server :: server
  clock_reads :: nat
  log_lines :: "log_line list"
  calls :: "client_call list"

definition xgroup_create :: "iteration \<Rightarrow> valkey_worker \<Rightarrow> (string + unit) \<times> valkey_worker" where
  "xgroup_create e w =
     (let w1 = w\<lparr>calls := calls w @ [XGroupCreate]\<rparr> in
      case xgroup_create_raises e of
        Some msg \<Rightarrow> (Inl msg, w1)
      | None \<Rightarrow>
          if group_exists (valkey_server w) then (Inl busygroup_message, w1)
          else (Inr (), w1\<lparr>valkey_server := (valkey_server w)\<lparr>group_exists := True\<rparr>\<rparr>))"

text \<open>
  The reply of \<^verbatim>\<open>xreadgroup\<close> is a list of pairs of a stream name and the entries
  delivered from that stream; it is empty when nothing arrived within the blocking time.
\<close>

definition xreadgroup ::
    "iteration \<Rightarrow> valkey_worker \<Rightarrow> (string + (string \<times> message list) list) \<times> valkey_worker" where
  "xreadgroup e w =
     (let w1 = w\<lparr>calls := calls w @ [XReadGroup]\<rparr> in
      case xreadgroup_raises e of
        Some msg \<Rightarrow> (Inl msg, w1)
      | None \<Rightarrow>
          if \<not> group_exists (valkey_server w) then (Inl nogroup_message, w1)
          else
            let delivered = take (nat (batch_size w)) (incoming e) in
            (Inr (if delivered = [] then [] else [(''bench_queue'', delivered)]),
             w1\<lparr>valkey_server := (valkey_server w)
                  \<lparr>pending := pending (valkey_server w) @ map fst delivered\<rparr>\<rparr>))"

definition xack ::
    "iteration \<Rightarrow> msg_id list \<Rightarrow> valkey_worker \<Rightarrow> (string + unit) \<times> valkey_worker" where
  "xack e ids w =
     (let w1 = w\<lparr>calls := calls w @ [XAck ids]\<rparr> in
      case xack_raises e of
        Some msg \<Rightarrow> (Inl msg, w1)
      | None \<Rightarrow>
          (Inr (), w1\<lparr>valkey_server := (valkey_server w)
                 \<lparr>pending := filter (\<lambda>i. i \<notin> set ids) (pending (valkey_server w))\<rparr>\<rparr>))"

text \<open>\<^verbatim>\<open>xpending_range(..., count=10)\<close>: id and idle time of the first ten pending entries.\<close>

definition xpending_range ::
    "iteration \<Rightarrow> valkey_worker \<Rightarrow> (string + (msg_id \<times> int) list) \<times> valkey_worker" where
  "xpending_range e w =
     (let w1 = w\<lparr>calls := calls w @ [XPendingRange]\<rparr> in
      case xpending_raises e of
        Some msg \<Rightarrow> (Inl msg, w1)
      | None \<Rightarrow>
          if \<not> group_exists (valkey_server w) then (Inl nogroup_message, w1)
          else (Inr (map (\<lambda>i. (i, idle_ms e i)) (take 10 (pending (valkey_server w)))), w1))"

definition xclaim ::
    "iteration \<Rightarrow> msg_id \<Rightarrow> valkey_worker \<Rightarrow> (string + message list) \<times> valkey_worker" where
  "xclaim e message_id w =
     (xclaim_reply e message_id, w\<lparr>calls := calls w @ [XClaim message_id]\<rparr>)"

subsection \<open>The methods\<close>

text \<open>
  \<^verbatim>\<open>ValkeyWorker.__init__\<close>: the fields, then the attempt to create the consumer group;
  an exception whose message contains \<^verbatim>\<open>BUSYGROUP\<close> is dropped silently, any other is
  printed as a warning.
\<close>

fun decimal :: "nat \<Rightarrow> string" where
  "decimal n =
     (if n < 10 then [''0123456789'' ! n]
      else decimal (n div 10) @ [''0123456789'' ! (n mod 10)])"

definition new_valkey_worker ::
    "iteration \<Rightarrow> nat \<Rightarrow> collector \<Rightarrow> int \<Rightarrow> server \<Rightarrow> valkey_worker" where
  "new_valkey_worker e n metrics_collector fetch_size srv =
     (let w = \<lparr>worker_id = ''worker_'' @ decimal n,
               batch_size = fetch_size, worker_jobs_processed = 0,
               shared_metrics = metrics_collector, valkey_server = srv,
               clock_reads = 0, log_lines = [], calls = []\<rparr>
      in case xgroup_create e w of
           (Inl msg, w1) \<Rightarrow>
             if \<not> py_in ''BUSYGROUP'' msg then w1\<lparr>log_lines := log_lines w1 @ [Warning msg]\<rparr>
             else w1
         | (Inr u, w1) \<Rightarrow> w1)"

text \<open>
  The body of the inner \<^verbatim>\<open>try\<close> for one entry: the latency in milliseconds and the
  number of clock readings after it, or the exception. With \<^verbatim>\<open>created_at\<close> absent the
  clock is read twice.
\<close>

definition process_entry :: "(nat \<Rightarrow> rat) \<Rightarrow> nat \<Rightarrow> created_field \<Rightarrow> py_error + rat \<times> nat" where
  "process_entry clk t created =
     (case created of
        Garbled \<Rightarrow> Inl ValueError
      | Iso created_at \<Rightarrow> Inr ((clk t - created_at) * 1000, t + 1)
      | Absent \<Rightarrow> Inr ((clk (t + 1) - clk t) * 1000, t + 2))"

text \<open>
  The loops of \<^verbatim>\<open>process_messages\<close> over the entries of one stream and over the
  streams. They carry the worker, \<^verbatim>\<open>message_ids_to_ack\<close> and \<^verbatim>\<open>batch_latencies\<close>.
\<close>

fun process_stream_messages ::
    "iteration \<Rightarrow> message list \<Rightarrow> valkey_worker \<times> msg_id list \<times> rat list
       \<Rightarrow> valkey_worker \<times> msg_id list \<times> rat list" where
  "process_stream_messages e [] acc = acc"
| "process_stream_messages e ((message_id, created) # ms) (w, ids, lats) =
     (case process_entry (now e) (clock_reads w) created of
        Inl err \<Rightarrow>
          process_stream_messages e ms
            (w\<lparr>log_lines := log_lines w @ [Error_processing_message message_id]\<rparr>, ids, lats)
      | Inr (latency_ms, t) \<Rightarrow>
          process_stream_messages e ms
            (w\<lparr>clock_reads := t, worker_jobs_processed := worker_jobs_processed w + 1\<rparr>,
             ids @ [message_id], lats @ [latency_ms]))"

fun process_streams ::
    "iteration \<Rightarrow> (string \<times> message list) list \<Rightarrow> valkey_worker \<times> msg_id list \<times> rat list
       \<Rightarrow> valkey_worker \<times> msg_id list \<times> rat list" where
  "process_streams e [] acc = acc"
| "process_streams e ((stream_name, stream_messages) # rest) acc =
     process_streams e rest (process_stream_messages e stream_messages acc)"

text \<open>The batched acknowledge with its own \<^verbatim>\<open>try\<close>, and the recording that follows.\<close>

definition acknowledge :: "iteration \<Rightarrow> (string \<Rightarrow> log_line) \<Rightarrow> msg_id list \<Rightarrow> valkey_worker
    \<Rightarrow> valkey_worker" where
  "acknowledge e line ids w =
     (if ids \<noteq> [] then
        (case xack e ids w of
           (Inl msg, w1) \<Rightarrow> w1\<lparr>log_lines := log_lines w1 @ [line msg]\<rparr>
         | (Inr u, w1) \<Rightarrow> w1)
      else w)"

definition record_batch :: "rat list \<Rightarrow> valkey_worker \<Rightarrow> valkey_worker" where
  "record_batch lats w =
     (if lats \<noteq> [] then w\<lparr>shared_metrics := record_jobs lats (shared_metrics w)\<rparr> else w)"

definition process_messages :: "iteration \<Rightarrow> valkey_worker \<Rightarrow> int \<times> valkey_worker" where
  "process_messages e w =
     (case xreadgroup e w of
        (Inr messages, w1) \<Rightarrow>
          if messages = [] then (0, w1)
          else
            (case process_streams e messages (w1, [], []) of
               (w2, message_ids_to_ack, batch_latencies) \<Rightarrow>
                 (int (length message_ids_to_ack),
                  record_batch batch_latencies
                    (acknowledge e Error_acknowledging_batch message_ids_to_ack w2)))
      | (Inl msg, w1) \<Rightarrow>
          if py_in ''NOGROUP'' msg then
            (0, snd (xgroup_create e (w1\<lparr>log_lines := log_lines w1 @ [Consumer_group_not_found]\<rparr>)))
          else (0, w1\<lparr>log_lines := log_lines w1 @ [Error_reading_stream msg]\<rparr>))"

text \<open>
  \<^verbatim>\<open>claim_pending_messages\<close>. The inner loop over the reply of one \<^verbatim>\<open>xclaim\<close> has no
  \<^verbatim>\<open>try\<close> of its own: an exception in it ends the loop and is caught together with
  those of \<^verbatim>\<open>xclaim\<close>, so the result says whether the loop ran to its end.
\<close>

fun process_claimed ::
    "iteration \<Rightarrow> message list \<Rightarrow> valkey_worker \<times> msg_id list \<times> rat list
       \<Rightarrow> bool \<times> valkey_worker \<times> msg_id list \<times> rat list" where
  "process_claimed e [] acc = (True, acc)"
| "process_claimed e ((msg_id, created) # ms) (w, ids, lats) =
     (case process_entry (now e) (clock_reads w) created of
        Inl err \<Rightarrow> (False, w, ids, lats)
      | Inr (latency_ms, t) \<Rightarrow>
          process_claimed e ms
            (w\<lparr>clock_reads := t, worker_jobs_processed := worker_jobs_processed w + 1\<rparr>,
             ids @ [msg_id], lats @ [latency_ms]))"

fun claim_each ::
    "iteration \<Rightarrow> (msg_id \<times> int) list \<Rightarrow> valkey_worker \<times> msg_id list \<times> rat list
       \<Rightarrow> valkey_worker \<times> msg_id list \<times> rat list" where
  "claim_each e [] acc = acc"
| "claim_each e ((message_id, idle_time) # rest) (w, ids, lats) =
     (if idle_time > 5000 then
        (case xclaim e message_id w of
           (Inl msg, w1) \<Rightarrow>
             claim_each e rest
               (w1\<lparr>log_lines := log_lines w1 @ [Error_claiming_message message_id]\<rparr>, ids, lats)
         | (Inr result, w1) \<Rightarrow>
             (case process_claimed e result (w1, ids, lats) of
                (True, acc) \<Rightarrow> claim_each e rest acc
              | (False, w2, ids2, lats2) \<Rightarrow>
                  claim_each e rest
                    (w2\<lparr>log_lines := log_lines w2 @ [Error_claiming_message message_id]\<rparr>,
                     ids2, lats2)))
      else claim_each e rest (w, ids, lats))"

definition claim_pending_messages :: "iteration \<Rightarrow> valkey_worker \<Rightarrow> int \<times> valkey_worker" where
  "claim_pending_messages e w =
     (case xpending_range e w of
        (Inr pending_entries, w1) \<Rightarrow>
          if pending_entries = [] then (0, w1)
          else
            (case claim_each e pending_entries (w1, [], []) of
               (w2, claimed_ids, batch_latencies) \<Rightarrow>
                 (int (length claimed_ids),
                  record_batch batch_latencies
                    (acknowledge e Error_acknowledging_claimed_batch claimed_ids w2)))
      | (Inl msg, w1) \<Rightarrow>
          (0, w1\<lparr>log_lines := log_lines w1 @ [Error_claiming_pending_messages msg]\<rparr>))"

text \<open>
  The loop of \<^verbatim>\<open>run\<close>, one list element for each iteration made before the stop flag
  is cleared; it carries \<^verbatim>\<open>claim_counter\<close>.
\<close>

fun run_worker :: "iteration list \<Rightarrow> int \<times> valkey_worker \<Rightarrow> int \<times> valkey_worker" where
  "run_worker [] acc = acc"
| "run_worker (e # es) (claim_counter, w) =
     (case process_messages e w of
        (processed, w1) \<Rightarrow>
          if claim_counter + 1 \<ge> 10
          then run_worker es (0, snd (claim_pending_messages e w1))
          else run_worker es (claim_counter + 1, w1))"

text \<open>An iteration in which nothing arrives and no call raises for a reason of its own.\<close>

definition idle_iteration :: iteration where
  "idle_iteration =
     \<lparr>now = (\<lambda>t. of_nat t), incoming = [], idle_ms = (\<lambda>i. 0), xclaim_reply = (\<lambda>i. Inr []),
      xgroup_create_raises = None, xreadgroup_raises = None, xack_raises = None,
      xpending_raises = None\<rparr>"

declare decimal.simps [simp del]

text \<open>
  A worker just constructed on a server that had no consumer group, and an iteration
  that delivers three entries, the second of which cannot be parsed.
\<close>

definition sample_worker :: valkey_worker where
  "sample_worker =
     new_valkey_worker idle_iteration 0 (new_collector ''metrics_valkey.jsonl'' 0) 50
       \<lparr>group_exists = False, pending = []\<rparr>"

definition sample_iteration :: iteration where
  "sample_iteration =
     idle_iteration\<lparr>incoming := [(''1-0'', Iso 0), (''2-0'', Garbled), (''3-0'', Absent)]\<rparr>"



section \<open>Properties of MetricsCollector\<close>

lemma sorted_nth_0_Min: "sorted ys \<Longrightarrow> ys \<noteq> [] \<Longrightarrow> ys ! 0 = Min (set ys)"
  by (cases ys) (auto intro!: Min_eqI [symmetric])

lemma sorted_last_Max: "sorted ys \<Longrightarrow> ys \<noteq> [] \<Longrightarrow> ys ! (length ys - 1) = Max (set ys)"
proof -
  assume s: "sorted ys" and ne: "ys \<noteq> []"
  have "\<And>y. y \<in> set ys \<Longrightarrow> y \<le> ys ! (length ys - 1)"
  proof -
    fix y assume "y \<in> set ys"
    then obtain i where i: "i < length ys" "ys ! i = y" by (auto simp: in_set_conv_nth)
    then have "ys ! i \<le> ys ! (length ys - 1)"
      using s by (intro sorted_nth_mono) auto
    with i show "y \<le> ys ! (length ys - 1)" by simp
  qed
  moreover have "ys ! (length ys - 1) \<in> set ys" using ne by simp
  ultimately show ?thesis by (intro Max_eqI [symmetric]) auto
qed

lemma pct_index_range: "0 < n \<Longrightarrow> pct < 100 \<Longrightarrow> 0 \<le> pct_index n pct \<and> pct_index n pct < int n"
proof -
  assume n: "0 < n" and p: "pct < 100"
  have "int n * int pct < int n * 100" using n p by simp
  then have "int n * int pct div 100 < int n" by linarith
  moreover have "0 \<le> int n * int pct div 100" by (simp add: pos_imp_zdiv_nonneg_iff)
  ultimately show ?thesis by (simp add: pct_index_def)
qed

lemma pct_index_floor:
  "pct_index n pct = \<lfloor>(of_nat pct / 100 :: rat) * of_nat n\<rfloor>"
proof -
  have "(of_nat pct / 100 :: rat) * of_nat n = of_int (int n * int pct) / of_int 100"
    by simp
  then show ?thesis
    unfolding pct_index_def by (simp only: floor_divide_of_int_eq)
qed

lemma py_index_in_range:
  "0 \<le> i \<Longrightarrow> i < int (length xs) \<Longrightarrow> py_index xs i = Inr (xs ! nat i)"
  by (simp add: py_index_def)

lemma py_index_last: "xs \<noteq> [] \<Longrightarrow> py_index xs (- 1) = Inr (xs ! (length xs - 1))"
  by (cases xs) (auto simp: py_index_def nat_diff_distrib)

lemma get_metrics_nonempty:
  assumes "latencies c \<noteq> []" and "time_throughput clk \<noteq> start_time c"
  shows "get_metrics c clk =
     Inr (Some \<lparr>timestamp = datetime_now clk,
                elapsed = time_elapsed clk - start_time c,
                m_jobs_processed = jobs_processed c,
                throughput = of_int (jobs_processed c) / (time_throughput clk - start_time c),
                latency_p50 = sort (latencies c) ! nat (pct_index (length (latencies c)) 50),
                latency_p95 = sort (latencies c) ! nat (pct_index (length (latencies c)) 95),
                latency_p99 = sort (latencies c) ! nat (pct_index (length (latencies c)) 99),
                latency_min = sort (latencies c) ! 0,
                latency_max = sort (latencies c) ! (length (latencies c) - 1),
                latency_avg = sum_list (sort (latencies c)) / of_nat (length (latencies c))\<rparr>)"
proof -
  let ?s = "sort (latencies c)"
  let ?n = "length (latencies c)"
  have n: "0 < ?n" using assms(1) by simp
  have ne: "?s \<noteq> []" using assms(1) by (metis length_sort length_0_conv)
  have idx: "\<And>p. p < 100 \<Longrightarrow> guarded_index ?n ?s (pct_index ?n p) = Inr (?s ! nat (pct_index ?n p))"
    using pct_index_range [OF n] n by (simp add: guarded_index_def py_index_in_range)
  have lo: "guarded_index ?n ?s 0 = Inr (?s ! 0)"
    using n by (simp add: guarded_index_def py_index_in_range)
  have hi: "guarded_index ?n ?s (- 1) = Inr (?s ! (?n - 1))"
    using n py_index_last [OF ne] by (simp add: guarded_index_def)
  have avg: "guarded_avg ?n ?s = Inr (sum_list ?s / of_nat ?n)"
    using n by (simp add: guarded_avg_def py_truediv_def)
  have thr: "py_truediv (of_int (jobs_processed c)) (time_throughput clk - start_time c)
      = Inr (of_int (jobs_processed c) / (time_throughput clk - start_time c))"
    using assms(2) by (simp add: py_truediv_def)
  show ?thesis
    using assms(1) by (simp add: get_metrics_def Let_def bind_err_def thr idx lo hi avg)
qed

lemma sum_list_sort: "sum_list (sort xs) = sum_list (xs :: rat list)"
  by (metis mset_sort sum_mset_sum_list)

text \<open>
  Claim C2. For a collector holding at least one sample (and a clock that has moved
  since the collector was created, so that the throughput quotient is defined),
  \<^verbatim>\<open>get_metrics\<close> returns a snapshot whose p50, p95 and p99 are the entries of the sorted
  samples at index \<open>\<lfloor>percentile \<times> n\<rfloor>\<close>, whose minimum and maximum are the least and
  the greatest sample and whose average is their arithmetic mean. Whenever the samples
  are, as a multiset, the numbers 1 to 100, the three percentiles are 51, 96 and 100.
\<close>

theorem get_metrics_percentiles:
  assumes "latencies c \<noteq> []" and "time_throughput clk \<noteq> start_time c"
  shows "\<exists>m. get_metrics c clk = Inr (Some m)
    \<and> latency_p50 m = sort (latencies c) ! nat \<lfloor>(50 / 100 :: rat) * of_nat (length (latencies c))\<rfloor>
    \<and> latency_p95 m = sort (latencies c) ! nat \<lfloor>(95 / 100 :: rat) * of_nat (length (latencies c))\<rfloor>
    \<and> latency_p99 m = sort (latencies c) ! nat \<lfloor>(99 / 100 :: rat) * of_nat (length (latencies c))\<rfloor>
    \<and> latency_min m = Min (set (latencies c))
    \<and> latency_max m = Max (set (latencies c))
    \<and> latency_avg m = sum_list (latencies c) / of_nat (length (latencies c))
    \<and> (mset (latencies c) = mset (map of_int [1..100]) \<longrightarrow>
         latency_p50 m = 51 \<and> latency_p95 m = 96 \<and> latency_p99 m = 100)"
proof -
  let ?s = "sort (latencies c)"
  let ?n = "length (latencies c)"
  have ne: "?s \<noteq> []" using assms(1) by (metis length_sort length_0_conv)
  have fl: "\<And>p. nat (pct_index ?n p) = nat \<lfloor>(of_nat p / 100 :: rat) * of_nat ?n\<rfloor>"
    by (simp only: pct_index_floor)
  have mn: "?s ! 0 = Min (set (latencies c))"
    using sorted_nth_0_Min [OF sorted_sort ne] by simp
  have mx: "?s ! (?n - 1) = Max (set (latencies c))"
    using sorted_last_Max [OF sorted_sort ne] by simp
  have ex: "mset (latencies c) = mset (map of_int [1..100]) \<Longrightarrow>
      ?s ! nat (pct_index ?n 50) = 51 \<and> ?s ! nat (pct_index ?n 95) = 96 \<and> ?s ! nat (pct_index ?n 99) = 100"
  proof -
    assume m: "mset (latencies c) = mset (map of_int [1..100])"
    have srt: "sorted (map rat_of_int [1..100])"
      by (simp add: sorted_map strict_sorted_iff sorted_wrt_map) 
    have s: "?s = map of_int [1..100]"
      using properties_for_sort [OF m [symmetric] srt] .
    have n: "?n = 100" using arg_cong [OF m, of size] by simp
    show ?thesis unfolding s n pct_index_def by (simp add: nth_map nth_upto)
  qed
  show ?thesis
    unfolding get_metrics_nonempty [OF assms]
    using fl [of 50] fl [of 95] fl [of 99] mn mx ex by (simp add: sum_list_sort)
qed

theorem get_metrics_percentiles_witness:
  "latencies \<lparr>output_file = ''metrics_pg.jsonl'', jobs_processed = 100,
              latencies = rev (map of_int [1..100]), start_time = 0\<rparr> \<noteq> []
   \<and> time_throughput \<lparr>datetime_now = 7, time_elapsed = 7, time_throughput = 7\<rparr>
       \<noteq> start_time \<lparr>output_file = ''metrics_pg.jsonl'', jobs_processed = 100,
              latencies = rev (map of_int [1..100]), start_time = 0\<rparr>
   \<and> mset (latencies \<lparr>output_file = ''metrics_pg.jsonl'', jobs_processed = 100,
              latencies = rev (map of_int [1..100]), start_time = 0\<rparr>)
       = mset (map of_int [1..100])
   \<and> (\<exists>m. get_metrics \<lparr>output_file = ''metrics_pg.jsonl'', jobs_processed = 100,
              latencies = rev (map of_int [1..100]), start_time = 0\<rparr>
            \<lparr>datetime_now = 7, time_elapsed = 7, time_throughput = 7\<rparr> = Inr (Some m)
          \<and> latency_p50 m = 51 \<and> latency_p95 m = 96 \<and> latency_p99 m = 100
          \<and> latency_min m = 1 \<and> latency_max m = 100 \<and> latency_avg m = 101 / 2)"
proof -
  let ?c = "\<lparr>output_file = ''metrics_pg.jsonl'', jobs_processed = 100,
              latencies = rev (map rat_of_int [1..100]), start_time = 0\<rparr>"
  let ?clk = "\<lparr>datetime_now = 7, time_elapsed = 7, time_throughput = 7 :: rat\<rparr>"
  have h1: "latencies ?c \<noteq> []" by (simp add: upto.simps)
  have h2: "time_throughput ?clk \<noteq> start_time ?c" by simp
  have h3: "mset (latencies ?c) = mset (map of_int [1..100])" by simp
  have mn: "Min (set (latencies ?c)) = 1"
    by (rule Min_eqI) auto
  have mx: "Max (set (latencies ?c)) = 100"
    by (rule Max_eqI) auto
  have sm: "sum_list (latencies ?c) = 5050"
    by code_simp
  have ln: "length (latencies ?c) = 100" by simp
  from get_metrics_percentiles [OF h1 h2] h3 mn mx sm ln
  show ?thesis by (auto simp del: upto.simps)
qed


lemma get_metrics_no_samples: "latencies c = [] \<Longrightarrow> get_metrics c clk = Inr None"
  by (simp add: get_metrics_def)

text \<open>
  Claim C10. While no latency sample has been recorded, \<^verbatim>\<open>get_metrics\<close> returns
  \<^verbatim>\<open>None\<close> and \<^verbatim>\<open>save_metrics\<close> leaves every file as it is; this is the state of a
  collector just created, and of one that has only received empty batches. Hence a
  call of \<^verbatim>\<open>save_metrics\<close> that changes the file system is made on a collector holding
  at least one sample.
\<close>

theorem save_metrics_no_samples:
  assumes "latencies c = []"
  shows "get_metrics c clk = Inr None
    \<and> save_metrics c clk fs = Inr fs
    \<and> get_metrics (new_collector path t0) clk = Inr None
    \<and> save_metrics (new_collector path t0) clk fs = Inr fs
    \<and> (\<forall>c' fs'. save_metrics c' clk fs = Inr fs' \<and> fs' \<noteq> fs \<longrightarrow> latencies c' \<noteq> [])"
proof -
  have a: "\<And>d. latencies d = [] \<Longrightarrow> save_metrics d clk fs = Inr fs"
    by (simp add: save_metrics_def get_metrics_no_samples)
  have b: "latencies (new_collector path t0) = []"
    by (simp add: new_collector_def)
  have c: "\<forall>c' fs'. save_metrics c' clk fs = Inr fs' \<and> fs' \<noteq> fs \<longrightarrow> latencies c' \<noteq> []"
  proof (intro allI impI notI)
    fix c' fs'
    assume p: "save_metrics c' clk fs = Inr fs' \<and> fs' \<noteq> fs" and e: "latencies c' = []"
    from a [OF e] p show False by simp
  qed
  show ?thesis
    by (intro conjI get_metrics_no_samples assms a b c)
qed

theorem save_metrics_no_samples_witness:
  "latencies (new_collector ''metrics_valkey.jsonl'' 3) = []
   \<and> get_metrics (new_collector ''metrics_valkey.jsonl'' 3)
        \<lparr>datetime_now = 4, time_elapsed = 4, time_throughput = 4\<rparr> = Inr None
   \<and> save_metrics (new_collector ''metrics_valkey.jsonl'' 3)
        \<lparr>datetime_now = 4, time_elapsed = 4, time_throughput = 4\<rparr> (\<lambda>path. []) = Inr (\<lambda>path. [])"
proof -
  have h: "latencies (new_collector ''metrics_valkey.jsonl'' 3) = []"
    by (simp add: new_collector_def)
  note t = save_metrics_no_samples [OF h,
      of "\<lparr>datetime_now = 4, time_elapsed = 4, time_throughput = 4\<rparr>" "\<lambda>path. []"]
  show ?thesis
    by (intro conjI h t [THEN conjunct1] t [THEN conjunct2, THEN conjunct1])
qed

lemma apply_call_count:
  "jobs_processed (apply_call r c) - jobs_processed c
     = int (length (latencies (apply_call r c))) - int (length (latencies c))"
  by (cases r) (simp_all add: record_job_def record_jobs_def)

lemma apply_call_mono: "jobs_processed c \<le> jobs_processed (apply_call r c)"
  by (cases r) (simp_all add: record_job_def record_jobs_def)

lemma apply_calls_mono: "jobs_processed c \<le> jobs_processed (apply_calls rs c)"
proof (induction rs arbitrary: c)
  case Nil
  show ?case by simp
next
  case (Cons r rs)
  have "jobs_processed c \<le> jobs_processed (apply_call r c)" by (rule apply_call_mono)
  also have "\<dots> \<le> jobs_processed (apply_calls rs (apply_call r c))" by (rule Cons.IH)
  finally show ?case by simp
qed

lemma apply_calls_invariant:
  "jobs_processed c = int (length (latencies c)) \<Longrightarrow>
   jobs_processed (apply_calls rs c) = int (length (latencies (apply_calls rs c)))"
proof (induction rs arbitrary: c)
  case Nil
  then show ?case by simp
next
  case (Cons r rs)
  have "jobs_processed (apply_call r c) = int (length (latencies (apply_call r c)))"
    using apply_call_count [of r c] Cons.prems by simp
  then show ?case using Cons.IH by simp
qed

lemma apply_calls_append: "apply_calls (rs @ rs') c = apply_calls rs' (apply_calls rs c)"
  by (induction rs arbitrary: c) simp_all


lemma consistent_initial: "consistent (initial path t0)"
  by (simp add: consistent_def initial_def new_collector_def)

lemma consistent_holder:
  assumes "consistent s" and "thread s t = (p, xs)" and "p \<noteq> Outside"
  shows "lock s = Some t"
proof (cases "lock s")
  case None
  with assms(1) have "fst (thread s t) = Outside" by (simp add: consistent_def)
  with assms(2,3) show ?thesis by simp
next
  case (Some h)
  have "t = h"
  proof (rule ccontr)
    assume "t \<noteq> h"
    with assms(1) Some have "fst (thread s t) = Outside" by (simp add: consistent_def)
    with assms(2,3) show False by simp
  qed
  with Some show ?thesis by simp
qed

lemma consistent_others:
  "consistent s \<Longrightarrow> lock s = Some h \<Longrightarrow> t \<noteq> h \<Longrightarrow> fst (thread s t) = Outside"
  by (simp add: consistent_def)

lemma step_consistent:
  assumes "step s s'" and "consistent s"
  shows "consistent s'"
  using assms(1)
proof (cases rule: step.cases)
  case (acquire t xs)
  with assms(2) show ?thesis by (simp add: consistent_def)
next
  case (count t xs)
  have l: "lock s = Some t"
    using consistent_holder [OF assms(2) count(2)] by simp
  have c: "jobs_processed (coll s) = int (length (latencies (coll s)))"
    using assms(2) l count(2) by (simp add: consistent_def)
  show ?thesis
    unfolding count(1) using l c consistent_others [OF assms(2) l]
    by (simp add: consistent_def)
next
  case (store t xs)
  have l: "lock s = Some t"
    using consistent_holder [OF assms(2) store(2)] by simp
  have c: "jobs_processed (coll s) = int (length (latencies (coll s))) + int (length xs)"
    using assms(2) l store(2) by (simp add: consistent_def)
  show ?thesis
    unfolding store(1) using l c consistent_others [OF assms(2) l]
    by (simp add: consistent_def)
next
  case (release t xs)
  have l: "lock s = Some t"
    using consistent_holder [OF assms(2) release(2)] by simp
  have c: "jobs_processed (coll s) = int (length (latencies (coll s)))"
    using assms(2) l release(2) by (simp add: consistent_def)
  have o: "\<And>u. u \<noteq> t \<Longrightarrow> fst (thread s u) = Outside"
    using consistent_others [OF assms(2) l] by simp
  show ?thesis
    unfolding release(1) using c o by (simp add: consistent_def)
qed

lemma reachable_consistent:
  "reachable s s' \<Longrightarrow> consistent s \<Longrightarrow> consistent s'"
  by (induction rule: reachable.induct) (auto intro: step_consistent)

lemma step_mono: "step s s' \<Longrightarrow> jobs_processed (coll s) \<le> jobs_processed (coll s')"
  by (induction rule: step.induct) simp_all

lemma reachable_mono:
  "reachable s s' \<Longrightarrow> jobs_processed (coll s) \<le> jobs_processed (coll s')"
proof (induction rule: reachable.induct)
  case (start s)
  show ?case by simp
next
  case (further s s' s'')
  then show ?case using step_mono [of s' s''] by simp
qed

lemma whole_call:
  assumes "lock s = None" and "fst (thread s t) = Outside"
  shows "reachable s (s\<lparr>coll := record_jobs xs (coll s), thread := (thread s)(t := (Outside, []))\<rparr>)"
proof -
  let ?s1 = "s\<lparr>lock := Some t, thread := (thread s)(t := (Entered, xs))\<rparr>"
  let ?s2 = "?s1\<lparr>coll := (coll ?s1)\<lparr>jobs_processed := jobs_processed (coll ?s1) + int (length xs)\<rparr>,
              thread := (thread ?s1)(t := (Counted, xs))\<rparr>"
  let ?s3 = "?s2\<lparr>coll := (coll ?s2)\<lparr>latencies := latencies (coll ?s2) @ xs\<rparr>,
              thread := (thread ?s2)(t := (Stored, xs))\<rparr>"
  let ?s4 = "?s3\<lparr>lock := None, thread := (thread ?s3)(t := (Outside, []))\<rparr>"
  have 1: "step s ?s1" using assms by (rule step.acquire)
  have 2: "step ?s1 ?s2" by (rule step.count) simp
  have 3: "step ?s2 ?s3" by (rule step.store) simp
  have 4: "step ?s3 ?s4" by (rule step.release) simp
  have r: "reachable s ?s4"
    by (rule further [OF further [OF further [OF further [OF start 1] 2] 3] 4])
  have e: "?s4 = s\<lparr>coll := record_jobs xs (coll s), thread := (thread s)(t := (Outside, []))\<rparr>"
    using assms(1) by (simp add: record_jobs_def)
  show ?thesis using r unfolding e .
qed

lemma reachable_trans: "reachable s' s'' \<Longrightarrow> reachable s s' \<Longrightarrow> reachable s s''"
  by (induction rule: reachable.induct) (auto intro: reachable.further)

lemma record_job_as_batch: "record_job x c = record_jobs [x] c"
  by (simp add: record_job_def record_jobs_def)

lemma sequential_reachable:
  "reachable (initial path t0)
     ((initial path t0)\<lparr>coll := apply_calls rs (new_collector path t0)\<rparr>)"
proof (induction rs rule: rev_induct)
  case Nil
  have "(initial path t0)\<lparr>coll := new_collector path t0\<rparr> = initial path t0"
    by (simp add: initial_def)
  then show ?case by (simp add: reachable.start)
next
  case (snoc r rs)
  let ?s = "(initial path t0)\<lparr>coll := apply_calls rs (new_collector path t0)\<rparr>"
  obtain xs where xs: "apply_call r = record_jobs xs"
    by (cases r) (auto simp: record_job_as_batch fun_eq_iff)
  have "reachable ?s (?s\<lparr>coll := record_jobs xs (coll ?s),
            thread := (thread ?s)(0 := (Outside, []))\<rparr>)"
    by (rule whole_call) (simp_all add: initial_def)
  moreover have "?s\<lparr>coll := record_jobs xs (coll ?s), thread := (thread ?s)(0 := (Outside, []))\<rparr>
      = (initial path t0)\<lparr>coll := apply_calls (rs @ [r]) (new_collector path t0)\<rparr>"
    by (simp add: apply_calls_append xs initial_def fun_eq_iff)
  ultimately show ?case using snoc.IH reachable_trans by metis
qed

text \<open>
  Claim C3. After any sequence of \<^verbatim>\<open>record_job\<close> and \<^verbatim>\<open>record_jobs\<close> calls on a new
  collector the counter equals the number of samples, and a recording call never
  lowers the counter and adds as much to it as it adds samples. With the calls of
  several threads interleaved statement by statement, the counter equals the number of
  samples whenever the lock is free, no statement of any thread lowers the counter, and
  a thread is between the two updates only while it holds the lock.
\<close>

theorem record_keeps_count:
  assumes "reachable (initial path t0) s" and "step s s'"
  shows "jobs_processed (apply_calls rs (new_collector path t0))
           = int (length (latencies (apply_calls rs (new_collector path t0))))
    \<and> jobs_processed c \<le> jobs_processed (apply_calls rs c)
    \<and> jobs_processed (apply_call r c) - jobs_processed c
         = int (length (latencies (apply_call r c))) - int (length (latencies c))
    \<and> (lock s = None \<longrightarrow> jobs_processed (coll s) = int (length (latencies (coll s))))
    \<and> (fst (thread s t) \<noteq> Outside \<longrightarrow> lock s = Some t)
    \<and> jobs_processed (coll s) \<le> jobs_processed (coll s')"
proof -
  have i: "jobs_processed (new_collector path t0) = int (length (latencies (new_collector path t0)))"
    by (simp add: new_collector_def)
  have c: "consistent s"
    using reachable_consistent [OF assms(1) consistent_initial] .
  have f: "lock s = None \<longrightarrow> jobs_processed (coll s) = int (length (latencies (coll s)))"
    using c by (auto simp: consistent_def)
  have h: "fst (thread s t) \<noteq> Outside \<longrightarrow> lock s = Some t"
    using consistent_holder [OF c, of t "fst (thread s t)" "snd (thread s t)"] by simp
  show ?thesis
    by (intro conjI apply_calls_invariant [OF i] apply_calls_mono apply_call_count f h
        step_mono [OF assms(2)])
qed

theorem record_keeps_count_witness:
  "reachable (initial ''metrics_pg.jsonl'' 0) (initial ''metrics_pg.jsonl'' 0)
   \<and> step (initial ''metrics_pg.jsonl'' 0)
        ((initial ''metrics_pg.jsonl'' 0)
           \<lparr>lock := Some 0,
            thread := (thread (initial ''metrics_pg.jsonl'' 0))(0 := (Entered, [5]))\<rparr>)
   \<and> jobs_processed (apply_calls [Record_job 5, Record_jobs [1, 2]]
        (new_collector ''metrics_pg.jsonl'' 0)) = 3
   \<and> latencies (apply_calls [Record_job 5, Record_jobs [1, 2]]
        (new_collector ''metrics_pg.jsonl'' 0)) = [5, 1, 2]
   \<and> lock (initial ''metrics_pg.jsonl'' 0) = None
   \<and> jobs_processed (coll (initial ''metrics_pg.jsonl'' 0))
        = int (length (latencies (coll (initial ''metrics_pg.jsonl'' 0))))"
proof -
  let ?s = "initial ''metrics_pg.jsonl'' 0"
  have r: "reachable ?s ?s" by (rule reachable.start)
  have st: "step ?s (?s\<lparr>lock := Some 0, thread := (thread ?s)(0 := (Entered, [5]))\<rparr>)"
    by (rule step.acquire) (simp_all add: initial_def)
  have l: "lock ?s = None" by (simp add: initial_def)
  have v: "latencies (apply_calls [Record_job 5, Record_jobs [1, 2]]
        (new_collector ''metrics_pg.jsonl'' 0)) = [5, 1, 2]"
    by (simp add: record_job_def record_jobs_def new_collector_def)
  note t = record_keeps_count [OF r st,
      of "[Record_job 5, Record_jobs [1, 2]]" "new_collector ''metrics_pg.jsonl'' 0"
         "Record_job 5" 0]
  have a: "jobs_processed (apply_calls [Record_job 5, Record_jobs [1, 2]]
        (new_collector ''metrics_pg.jsonl'' 0)) = 3"
    using t [THEN conjunct1] v by simp
  have b: "jobs_processed (coll ?s) = int (length (latencies (coll ?s)))"
    using t [THEN conjunct2, THEN conjunct2, THEN conjunct2, THEN conjunct1] l by simp
  show ?thesis by (intro conjI r st a v l b)
qed

section \<open>Properties of the partition assignment\<close>

lemma assign_partitions_eq:
  assumes "num_workers \<noteq> 0" "num_partitions \<noteq> 0"
  shows "assign_partitions num_workers num_partitions wid =
    Inr (map (\<lambda>i. (wid mod num_partitions + i) mod num_partitions)
          [0..max 1 (num_partitions div num_workers) - 1])"
  using assms
  by (simp add: assign_partitions_def py_floordiv_def py_mod_def bind_err_def py_range_def)

lemma distinct_shift_mod:
  assumes "0 < P" "k \<le> P"
  shows "distinct (map (\<lambda>i. (s + i) mod P) [0..k - 1])"
proof -
  have "inj_on (\<lambda>i. (s + i) mod P) (set [0..k - 1])"
  proof (rule inj_onI)
    fix x y assume x: "x \<in> set [0..k - 1]" and y: "y \<in> set [0..k - 1]"
      and e: "(s + x) mod P = (s + y) mod P"
    have "(s + x - (s + y)) mod P = 0"
      using e by (metis mod_diff_cong diff_self mod_0)
    then have d: "P dvd (x - y)" by (simp add: mod_eq_0_iff_dvd)
    have b: "\<bar>x - y\<bar> < P" using x y assms by auto
    show "x = y"
    proof (rule ccontr)
      assume "x \<noteq> y"
      then have "x - y \<noteq> 0" by simp
      with d have "P \<le> \<bar>x - y\<bar>"
        using assms(1) by (metis dvd_imp_le_int abs_of_pos)
      with b show False by simp
    qed
  qed
  then show ?thesis by (simp add: distinct_map)
qed

lemma floor_quotient: "\<lfloor>rat_of_int P / rat_of_int W\<rfloor> = P div W"
  by (rule floor_divide_of_int_eq)

text \<open>
  Claim C1, as amended. For \<open>1 \<le> W \<le> P\<close> the constructor gives a worker exactly
  \<open>\<lfloor>P / W\<rfloor>\<close> partitions (not \<open>\<lceil>P / W\<rceil>\<close>): the indices
  \<open>(worker_id mod P + i) mod P\<close> for \<open>i = 0, \<dots>, \<lfloor>P / W\<rfloor> - 1\<close>, which are
  pairwise different and lie in \<open>0..P-1\<close>. Nothing is said on whether every partition
  is in the list of some worker.
\<close>

theorem assign_partitions_floor:
  assumes "1 \<le> W" and "W \<le> P"
  shows "\<exists>ps. assign_partitions W P w = Inr ps
    \<and> worker_partitions Partitioned W P w = Inr (Some ps)
    \<and> length ps = nat \<lfloor>rat_of_int P / rat_of_int W\<rfloor>
    \<and> 1 \<le> length ps
    \<and> (\<forall>i < length ps. ps ! i = (w mod P + int i) mod P)
    \<and> distinct ps
    \<and> set ps \<subseteq> {0..<P}"
proof -
  let ?k = "P div W"
  let ?ps = "map (\<lambda>i. (w mod P + i) mod P) [0..?k - 1]"
  have P: "0 < P" using assms by simp
  have "W div W \<le> P div W"
    using assms by (intro zdiv_mono1) simp_all
  then have k1: "1 \<le> ?k" using assms by simp
  have "P div W \<le> P div 1"
    using assms P by (intro zdiv_mono2) simp_all
  then have kP: "?k \<le> P" by simp
  have mx: "max 1 ?k = ?k" using k1 by simp
  have e: "assign_partitions W P w = Inr ?ps"
    using assign_partitions_eq [of W P w] assms P mx by simp
  have wp: "worker_partitions Partitioned W P w = Inr (Some ?ps)"
    by (simp add: worker_partitions_def e bind_err_def)
  have len: "length ?ps = nat ?k" using k1 by simp
  have nth: "\<forall>i < length ?ps. ?ps ! i = (w mod P + int i) mod P"
  proof (intro allI impI)
    fix i assume i: "i < length ?ps"
    then have "int i \<le> ?k - 1" using k1 by simp
    then have "[0..?k - 1] ! i = int i" by (simp add: nth_upto)
    then show "?ps ! i = (w mod P + int i) mod P" using i by simp
  qed
  have dist: "distinct ?ps" by (rule distinct_shift_mod [OF P kP])
  have rng: "set ?ps \<subseteq> {0..<P}" using P by auto
  show ?thesis
    using e wp len k1 nth dist rng by (auto simp: floor_quotient)
qed

theorem assign_partitions_floor_witness:
  "(1::int) \<le> 10 \<and> (10::int) \<le> 16
   \<and> assign_partitions 10 16 3 = Inr [3]
   \<and> worker_partitions Partitioned 10 16 3 = Inr (Some [3])
   \<and> nat \<lfloor>rat_of_int 16 / rat_of_int 10\<rfloor> = 1
   \<and> length [3::int] = 1
   \<and> [3::int] ! 0 = (3 mod 16 + int 0) mod 16"
proof -
  have h1: "(1::int) \<le> 10" and h2: "(10::int) \<le> 16" by simp_all
  from assign_partitions_floor [OF h1 h2, of 3]
  obtain ps where ps: "assign_partitions 10 16 3 = Inr ps"
      "worker_partitions Partitioned 10 16 3 = Inr (Some ps)"
      "length ps = nat \<lfloor>rat_of_int 16 / rat_of_int 10\<rfloor>"
      "\<forall>i < length ps. ps ! i = (3 mod 16 + int i) mod 16"
    by blast
  have v: "assign_partitions 10 16 3 = Inr [3]"
    by (simp add: assign_partitions_def py_floordiv_def py_mod_def bind_err_def py_range_def
        upto.simps)
  with ps(1) have "ps = [3]" by simp
  with ps h1 h2 show ?thesis by simp
qed

text \<open>
  The claim as it was stated fails at the configured pool, ten workers on sixteen
  partitions: a worker owns one partition where \<open>\<lceil>16 / 10\<rceil> = 2\<close>, and partition 10
  is in no worker's list.
\<close>

theorem assign_partitions_counterexample:
  "(10::int) \<le> 16
   \<and> assign_partitions 10 16 0 = Inr [0]
   \<and> int (length [0::int]) \<noteq> \<lceil>rat_of_int 16 / rat_of_int 10\<rceil>
   \<and> \<not> pool_owns 10 10 16 10"
proof -
  have a: "assign_partitions 10 16 0 = Inr [0]"
    by (simp add: assign_partitions_def py_floordiv_def py_mod_def bind_err_def py_range_def
        upto.simps)
  have c: "\<lceil>rat_of_int 16 / rat_of_int 10\<rceil> = 2"
    by (simp add: ceiling_unique)
  have p: "pool_partitions 10 10 16
      = [Inr [0], Inr [1], Inr [2], Inr [3], Inr [4], Inr [5], Inr [6], Inr [7], Inr [8], Inr [9]]"
    by (simp add: pool_partitions_def assign_partitions_def py_floordiv_def py_mod_def
        bind_err_def py_range_def upto.simps)
  have o: "\<not> pool_owns 10 10 16 10"
    unfolding pool_owns_def p by simp
  show ?thesis using a c o by simp
qed

lemma pool_covers_when_equal:
  assumes "1 \<le> P" and "0 \<le> p" and "p < P"
  shows "pool_owns P P P p"
proof -
  have e: "assign_partitions P P p = Inr [p]"
    using assms by (simp add: assign_partitions_eq upto.simps)
  have "p \<in> set (py_range P)" using assms by (simp add: py_range_def)
  then have "Inr [p] \<in> set (pool_partitions P P P)"
    unfolding pool_partitions_def using e by (metis image_eqI set_map)
  then show ?thesis
    unfolding pool_owns_def list_ex_iff by (intro bexI [of _ "Inr [p]"]) simp_all
qed

section \<open>Properties of the producer\<close>

lemma length_make_jobs: "length (make_jobs e p bs) = nat bs"
  by (simp add: make_jobs_def)

lemma produce_batch_quiet:
  assumes "execute_raises e = None" and "commit_raises e = None"
    and "uncommitted p = []" and "0 \<le> bs"
  shows "\<exists>p'. produce_batch e bs p = Inr (bs, p')
    \<and> jobs_produced p' = jobs_produced p + bs
    \<and> total_jobs p' = total_jobs p
    \<and> uncommitted p' = []
    \<and> printed p' = printed p
    \<and> int (length (committed p' @ stream p')) = int (length (committed p @ stream p)) + bs"
proof (cases "backend p = Pg")
  case True
  then show ?thesis
    using assms by (simp add: produce_batch_def produce_pg_batch_def Let_def length_make_jobs)
next
  case False
  then show ?thesis
    using assms by (simp add: produce_batch_def produce_valkey_batch_def Let_def length_make_jobs)
qed

lemma run_loop_done:
  "total_jobs p \<le> jobs_produced p \<Longrightarrow> run_loop bs envs p = Some (Inr p)"
  by (cases envs) simp_all

lemma run_loop_quiet:
  assumes "\<forall>e \<in> set envs. execute_raises e = None \<and> commit_raises e = None"
    and "n \<le> length envs"
    and "1 \<le> bs"
    and "total_jobs p \<le> jobs_produced p + int n * bs"
    and "\<forall>m<n. jobs_produced p + int m * bs < total_jobs p"
    and "uncommitted p = []"
  shows "\<exists>p'. run_loop bs envs p = Some (Inr p')
    \<and> jobs_produced p' = jobs_produced p + int n * bs
    \<and> total_jobs p' = total_jobs p
    \<and> printed p' = printed p
    \<and> int (length (committed p' @ stream p'))
         = int (length (committed p @ stream p)) + int n * bs"
  using assms
proof (induction n arbitrary: envs p)
  case 0
  then have "total_jobs p \<le> jobs_produced p" by simp
  then show ?case by (simp add: run_loop_done)
next
  case (Suc n)
  from Suc.prems(5) have less: "jobs_produced p < total_jobs p"
    by (metis zero_less_Suc of_nat_0 mult_zero_left add.right_neutral)
  from Suc.prems(2) obtain e es where envs: "envs = e # es"
    by (cases envs) auto
  have q: "execute_raises e = None" "commit_raises e = None"
    using Suc.prems(1) envs by simp_all
  from produce_batch_quiet [OF q Suc.prems(6), of bs] Suc.prems(3)
  obtain p1 where p1: "produce_batch e bs p = Inr (bs, p1)"
      "jobs_produced p1 = jobs_produced p + bs" "total_jobs p1 = total_jobs p"
      "uncommitted p1 = []" "printed p1 = printed p"
      "int (length (committed p1 @ stream p1)) = int (length (committed p @ stream p)) + bs"
    by auto
  have a1: "\<forall>e \<in> set es. execute_raises e = None \<and> commit_raises e = None"
    using Suc.prems(1) envs by simp
  have a2: "n \<le> length es" using Suc.prems(2) envs by simp
  have a4: "total_jobs p1 \<le> jobs_produced p1 + int n * bs"
    using Suc.prems(4) p1(2,3) by (simp add: algebra_simps)
  have a5: "\<forall>m<n. jobs_produced p1 + int m * bs < total_jobs p1"
  proof (intro allI impI)
    fix m assume "m < n"
    then have "jobs_produced p + int (Suc m) * bs < total_jobs p"
      using Suc.prems(5) by (metis Suc_less_eq)
    then show "jobs_produced p1 + int m * bs < total_jobs p1"
      using p1(2,3) by (simp add: algebra_simps)
  qed
  from Suc.IH [OF a1 a2 Suc.prems(3) a4 a5 p1(4)]
  obtain p' where p': "run_loop bs es p1 = Some (Inr p')"
      "jobs_produced p' = jobs_produced p1 + int n * bs" "total_jobs p' = total_jobs p1"
      "printed p' = printed p1"
      "int (length (committed p' @ stream p'))
         = int (length (committed p1 @ stream p1)) + int n * bs"
    by auto
  have "run_loop bs envs p = Some (Inr p')"
    using less envs p1(1) p'(1) by simp
  moreover have "jobs_produced p' = jobs_produced p + int (Suc n) * bs"
    using p'(2) p1(2) by (simp add: algebra_simps)
  moreover have "int (length (committed p' @ stream p'))
         = int (length (committed p @ stream p)) + int (Suc n) * bs"
    using p'(5) p1(6) by (simp add: algebra_simps)
  ultimately show ?case using p'(3,4) p1(3,5) by simp
qed

text \<open>The number of batches after which the total is reached, and what it amounts to.\<close>

lemma batches_needed:
  assumes "1 \<le> bs" and "0 \<le> (t::int)"
  defines "n \<equiv> nat ((t + bs - 1) div bs)"
  shows "t \<le> int n * bs" and "\<forall>m<n. int m * bs < t" and "int n * bs < t + bs"
proof -
  let ?q = "(t + bs - 1) div bs"
  have q0: "0 \<le> ?q" using assms by (simp add: pos_imp_zdiv_nonneg_iff)
  then have n: "int n = ?q" by (simp add: n_def)
  have m: "?q * bs = t + bs - 1 - (t + bs - 1) mod bs"
    by (simp add: algebra_simps minus_mod_eq_mult_div [symmetric])
  have r: "0 \<le> (t + bs - 1) mod bs" "(t + bs - 1) mod bs < bs"
    using assms(1) by simp_all
  have nb: "int n * bs = t + bs - 1 - (t + bs - 1) mod bs"
    using n m by simp
  show "t \<le> int n * bs" using nb r by linarith
  show "int n * bs < t + bs" using nb r by linarith
  show "\<forall>m<n. int m * bs < t"
  proof (intro allI impI)
    fix k assume "k < n"
    then have "int k + 1 \<le> ?q" using n by linarith
    then have "(int k + 1) * bs \<le> ?q * bs" using assms(1) by (simp add: mult_right_mono)
    moreover have "(int k + 1) * bs = int k * bs + bs" by (simp add: algebra_simps)
    ultimately have "int k * bs + bs \<le> t + bs - 1 - (t + bs - 1) mod bs"
      using m by simp
    then show "int k * bs < t" using r by linarith
  qed
qed

lemma run_quiet:
  assumes "1 \<le> r" and "0 \<le> d"
    and "\<forall>e \<in> set envs. execute_raises e = None \<and> commit_raises e = None"
    and "(r * d + max 1 (r div 100) - 1) div max 1 (r div 100) \<le> int (length envs)"
  shows "\<exists>p'. run envs (new_producer b qt r d) = Some (Inr p')
    \<and> jobs_produced p' = (r * d + max 1 (r div 100) - 1) div max 1 (r div 100) * max 1 (r div 100)
    \<and> r * d \<le> jobs_produced p'
    \<and> jobs_produced p' < r * d + max 1 (r div 100)
    \<and> int (length (committed p' @ stream p')) = jobs_produced p'
    \<and> printed p' = []"
proof -
  let ?bs = "max 1 (r div 100)"
  let ?t = "r * d"
  let ?p = "new_producer b qt r d"
  define n where "n = nat ((?t + ?bs - 1) div ?bs)"
  have bs: "1 \<le> ?bs" by simp
  have t: "0 \<le> ?t" using assms(1,2) by simp
  have q0: "0 \<le> (?t + ?bs - 1) div ?bs"
    using t bs by (simp add: pos_imp_zdiv_nonneg_iff)
  have nq: "int n = (?t + ?bs - 1) div ?bs" using q0 by (simp add: n_def)
  have len: "n \<le> length envs" using assms(4) nq by linarith
  note bn = batches_needed [OF bs t, folded n_def]
  have f: "jobs_produced ?p = 0" "total_jobs ?p = ?t" "uncommitted ?p = []"
      "committed ?p @ stream ?p = []" "printed ?p = []" "rate ?p = r"
    by (simp_all add: new_producer_def)
  have i4: "total_jobs ?p \<le> jobs_produced ?p + int n * ?bs"
    using bn(1) f by simp
  have i5: "\<forall>m<n. jobs_produced ?p + int m * ?bs < total_jobs ?p"
    using bn(2) f by simp
  from run_loop_quiet [OF assms(3) len bs i4 i5 f(3)]
  obtain p' where p': "run_loop ?bs envs ?p = Some (Inr p')"
      "jobs_produced p' = jobs_produced ?p + int n * ?bs"
      "printed p' = printed ?p"
      "int (length (committed p' @ stream p'))
         = int (length (committed ?p @ stream ?p)) + int n * ?bs"
    by blast
  have r0: "rat_of_int r \<noteq> 0" using assms(1) by simp
  have run: "run envs ?p = Some (Inr p')"
    using p'(1) r0 by (simp add: run_def py_truediv_def Let_def f(6))
  have jp: "jobs_produced p' = int n * ?bs" using p'(2) f(1) by simp
  have "jobs_produced p' = (?t + ?bs - 1) div ?bs * ?bs" using jp nq by simp
  moreover have "?t \<le> jobs_produced p'" using jp bn(1) by simp
  moreover have "jobs_produced p' < ?t + ?bs" using jp bn(3) by simp
  moreover have "int (length (committed p' @ stream p')) = jobs_produced p'"
    using p'(4) f(4) jp by simp
  moreover have "printed p' = []" using p'(3) f(5) by simp
  ultimately show ?thesis using run by blast
qed

lemma multiple_in_window:
  assumes "1 \<le> (bs::int)" and "t \<le> k * bs" and "k * bs < t + bs"
  shows "k * bs = t \<longleftrightarrow> bs dvd t"
proof
  assume "k * bs = t"
  then show "bs dvd t" by (metis dvd_triv_right)
next
  assume "bs dvd t"
  then obtain j where j: "t = bs * j" by (auto simp: dvd_def)
  have "bs * j \<le> bs * k" using assms(2) j by (simp add: mult.commute)
  then have 1: "j \<le> k" using assms(1) by (simp add: mult_le_cancel_left)
  have "bs * k < bs * (j + 1)" using assms(3) j by (simp add: algebra_simps)
  then have 2: "k < j + 1" using assms(1) by (simp add: mult_less_cancel_left)
  from 1 2 have "k = j" by simp
  then show "k * bs = t" using j by (simp add: mult.commute)
qed

text \<open>
  Claim C4, as amended. For a rate and a duration of at least 1, a run in which no
  write raises, given as many batches as it asks for, ends with \<^verbatim>\<open>jobs_produced\<close>
  equal to the least multiple of the batch size \<open>max 1 (rate div 100)\<close> that is not
  below \<open>rate \<times> duration\<close>: it misses the target from above by less than one batch,
  and meets it exactly if and only if the batch size divides the target. As many rows
  as that are stored and no error line is printed.
\<close>

theorem run_whole_batches:
  assumes "1 \<le> r" and "1 \<le> d"
    and "\<forall>e \<in> set envs. execute_raises e = None \<and> commit_raises e = None"
    and "(r * d + max 1 (r div 100) - 1) div max 1 (r div 100) \<le> int (length envs)"
  shows "\<exists>p'. run envs (new_producer b qt r d) = Some (Inr p')
    \<and> jobs_produced p' = (r * d + max 1 (r div 100) - 1) div max 1 (r div 100) * max 1 (r div 100)
    \<and> r * d \<le> jobs_produced p'
    \<and> jobs_produced p' < r * d + max 1 (r div 100)
    \<and> (jobs_produced p' = r * d \<longleftrightarrow> max 1 (r div 100) dvd r * d)
    \<and> int (length (committed p' @ stream p')) = jobs_produced p'
    \<and> printed p' = []"
proof -
  have d0: "0 \<le> d" using assms(2) by simp
  from run_quiet [OF assms(1) d0 assms(3) assms(4), of b qt]
  obtain p' where p': "run envs (new_producer b qt r d) = Some (Inr p')"
      "jobs_produced p' = (r * d + max 1 (r div 100) - 1) div max 1 (r div 100) * max 1 (r div 100)"
      "r * d \<le> jobs_produced p'"
      "jobs_produced p' < r * d + max 1 (r div 100)"
      "int (length (committed p' @ stream p')) = jobs_produced p'"
      "printed p' = []"
    by blast
  have bs: "1 \<le> max 1 (r div 100)" by simp
  have "jobs_produced p' = r * d \<longleftrightarrow> max 1 (r div 100) dvd r * d"
    using multiple_in_window [OF bs p'(3,4) [unfolded p'(2)]] p'(2) by simp
  with p' show ?thesis by blast
qed

theorem run_whole_batches_witness:
  "(1::int) \<le> 1000 \<and> (1::int) \<le> 180
   \<and> execute_raises quiet = None \<and> commit_raises quiet = None
   \<and> (1000 * 180 + max 1 (1000 div 100) - 1) div max 1 (1000 div 100)
        \<le> int (length (replicate 18000 quiet))
   \<and> (\<exists>p'. run (replicate 18000 quiet) (new_producer Valkey Skip_locked 1000 180)
              = Some (Inr p')
          \<and> jobs_produced p' = 180000)"
proof -
  have h1: "(1::int) \<le> 1000" and h2: "(1::int) \<le> 180" by simp_all
  have h3: "\<forall>e \<in> set (replicate 18000 quiet). execute_raises e = None \<and> commit_raises e = None"
    by (simp add: quiet_def)
  have h4: "(1000 * 180 + max 1 (1000 div 100) - 1) div max 1 (1000 div 100)
        \<le> int (length (replicate 18000 quiet))"
    by simp
  from run_whole_batches [OF h1 h2 h3 h4, of Valkey Skip_locked]
  obtain p' where "run (replicate 18000 quiet) (new_producer Valkey Skip_locked 1000 180)
        = Some (Inr p')"
      "jobs_produced p' = (1000 * 180 + max 1 (1000 div 100) - 1) div max 1 (1000 div 100)
          * max 1 (1000 div 100)"
    by blast
  moreover have "(1000 * 180 + max 1 (1000 div 100) - 1) div max 1 (1000 div 100)
          * max 1 (1000 div 100) = (180000::int)"
    by simp
  ultimately have "\<exists>p'. run (replicate 18000 quiet) (new_producer Valkey Skip_locked 1000 180)
              = Some (Inr p') \<and> jobs_produced p' = 180000"
    by auto
  moreover have "execute_raises quiet = None \<and> commit_raises quiet = None"
    by (simp add: quiet_def)
  ultimately show ?thesis using h1 h2 h4 by blast
qed

text \<open>
  The claim as it was stated fails at rate 350 and duration 1: the batch size is 3,
  and after 117 batches, none of which fails, 351 jobs have been produced.
\<close>

theorem run_exact_total_counterexample:
  "(1::int) \<le> 350 \<and> (1::int) \<le> 1
   \<and> execute_raises quiet = None \<and> commit_raises quiet = None
   \<and> map_option (map_sum id jobs_produced)
        (run (replicate 117 quiet) (new_producer Pg Skip_locked 350 1)) = Some (Inr 351)
   \<and> (351::int) \<noteq> 350 * 1"
proof -
  have h1: "(1::int) \<le> 350" and h2: "(0::int) \<le> 1" by simp_all
  have h3: "\<forall>e \<in> set (replicate 117 quiet). execute_raises e = None \<and> commit_raises e = None"
    by (simp add: quiet_def)
  have h4: "(350 * 1 + max 1 (350 div 100) - 1) div max 1 (350 div 100)
        \<le> int (length (replicate 117 quiet))"
    by simp
  from run_quiet [OF h1 h2 h3 h4, of Pg Skip_locked]
  obtain p' where p': "run (replicate 117 quiet) (new_producer Pg Skip_locked 350 1)
        = Some (Inr p')"
      "jobs_produced p' = (350 * 1 + max 1 (350 div 100) - 1) div max 1 (350 div 100)
          * max 1 (350 div 100)"
    by blast
  have "(350 * 1 + max 1 (350 div 100) - 1) div max 1 (350 div 100)
          * max 1 (350 div 100) = (351::int)"
    by simp
  with p' have "map_option (map_sum id jobs_produced)
        (run (replicate 117 quiet) (new_producer Pg Skip_locked 350 1)) = Some (Inr 351)"
    by simp
  then show ?thesis by (simp add: quiet_def)
qed

lemma pg_batch_failed_result:
  "rollback_raises e = None \<Longrightarrow>
   pg_batch_failed e msg p =
     Inr (0, p\<lparr>uncommitted := [], printed := printed p @ [''Error producing batch: '' @ msg]\<rparr>)"
  by (simp add: pg_batch_failed_def)

text \<open>
  Claim C5, as amended. When the insert of a batch (or its commit) raises and the
  rollback that the handler then calls returns, \<^verbatim>\<open>produce_pg_batch\<close> returns 0 and leaves \<^verbatim>\<open>jobs_produced\<close> and the committed
  rows of the table as they were, with no row of the batch left in the transaction,
  whatever part of the batch had been stored before the exception; one error line is
  printed. The loop of \<^verbatim>\<open>run\<close> then goes on with the next batch from that state.
\<close>

theorem produce_pg_batch_rolls_back:
  assumes "execute_raises e = Some msg \<or> (execute_raises e = None \<and> commit_raises e = Some msg)"
    and "rollback_raises e = None"
  shows "\<exists>p'. produce_pg_batch e bs p = Inr (0, p')
    \<and> jobs_produced p' = jobs_produced p
    \<and> total_jobs p' = total_jobs p
    \<and> committed p' = committed p
    \<and> uncommitted p' = []
    \<and> printed p' = printed p @ [''Error producing batch: '' @ msg]
    \<and> (backend p = Pg \<and> jobs_produced p < total_jobs p \<longrightarrow>
          run_loop bs (e # es) p = run_loop bs es p')"
proof -
  let ?p' = "p\<lparr>uncommitted := [], printed := printed p @ [''Error producing batch: '' @ msg]\<rparr>"
  have r: "produce_pg_batch e bs p = Inr (0, ?p')"
    using assms(1)
  proof
    assume "execute_raises e = Some msg"
    then show ?thesis
      by (simp add: produce_pg_batch_def Let_def pg_batch_failed_result [OF assms(2)])
  next
    assume "execute_raises e = None \<and> commit_raises e = Some msg"
    then show ?thesis
      by (simp add: produce_pg_batch_def Let_def pg_batch_failed_result [OF assms(2)])
  qed
  have l: "backend p = Pg \<and> jobs_produced p < total_jobs p \<longrightarrow>
          run_loop bs (e # es) p = run_loop bs es ?p'"
    using r by (simp add: produce_batch_def)
  show ?thesis
    by (rule exI [of _ ?p']) (use r l in simp)
qed

theorem produce_pg_batch_rolls_back_witness:
  "(execute_raises (quiet\<lparr>execute_raises := Some ''connection reset'', stored_before_raise := 1\<rparr>)
        = Some ''connection reset''
      \<or> (execute_raises (quiet\<lparr>execute_raises := Some ''connection reset'', stored_before_raise := 1\<rparr>)
            = None
          \<and> commit_raises (quiet\<lparr>execute_raises := Some ''connection reset'', stored_before_raise := 1\<rparr>)
            = Some ''connection reset''))
   \<and> rollback_raises (quiet\<lparr>execute_raises := Some ''connection reset'', stored_before_raise := 1\<rparr>)
        = None
   \<and> backend (new_producer Pg Partitioned 200 1) = Pg
   \<and> jobs_produced (new_producer Pg Partitioned 200 1) < total_jobs (new_producer Pg Partitioned 200 1)
   \<and> produce_pg_batch (quiet\<lparr>execute_raises := Some ''connection reset'', stored_before_raise := 1\<rparr>)
        2 (new_producer Pg Partitioned 200 1)
      = Inr (0, (new_producer Pg Partitioned 200 1)
                  \<lparr>printed := [''Error producing batch: connection reset'']\<rparr>)
   \<and> run_loop 2 [quiet\<lparr>execute_raises := Some ''connection reset'', stored_before_raise := 1\<rparr>,
                  quiet]
        (new_producer Pg Partitioned 200 1)
      = run_loop 2 [quiet]
          ((new_producer Pg Partitioned 200 1)
             \<lparr>printed := [''Error producing batch: connection reset'']\<rparr>)"
proof -
  let ?e = "quiet\<lparr>execute_raises := Some ''connection reset'', stored_before_raise := 1\<rparr>"
  let ?p = "new_producer Pg Partitioned 200 1"
  have h1: "execute_raises ?e = Some ''connection reset''
      \<or> (execute_raises ?e = None \<and> commit_raises ?e = Some ''connection reset'')"
    by simp
  have h2: "rollback_raises ?e = None" by (simp add: quiet_def)
  have h3: "backend ?p = Pg" and h4: "jobs_produced ?p < total_jobs ?p"
    by (simp_all add: new_producer_def)
  from produce_pg_batch_rolls_back [OF h1 h2, of 2 ?p "[quiet]"]
  obtain p' where p': "produce_pg_batch ?e 2 ?p = Inr (0, p')"
      "backend ?p = Pg \<and> jobs_produced ?p < total_jobs ?p \<longrightarrow>
          run_loop 2 (?e # [quiet]) ?p = run_loop 2 [quiet] p'"
    by blast
  have v: "produce_pg_batch ?e 2 ?p
      = Inr (0, ?p\<lparr>printed := [''Error producing batch: connection reset'']\<rparr>)"
    by (simp add: produce_pg_batch_def pg_batch_failed_def quiet_def new_producer_def Let_def)
  from p'(1) v have e: "p' = ?p\<lparr>printed := [''Error producing batch: connection reset'']\<rparr>"
    by simp
  from p'(2) h3 h4 have "run_loop 2 (?e # [quiet]) ?p = run_loop 2 [quiet] p'"
    by blast
  then have l: "run_loop 2 [?e, quiet] ?p
      = run_loop 2 [quiet] (?p\<lparr>printed := [''Error producing batch: connection reset'']\<rparr>)"
    unfolding e .
  show ?thesis
    by (intro conjI h1 h2 h3 h4 v l)
qed

text \<open>
  The claim as it was stated fails when the rollback raises as well, as it does on a
  connection that is lost: the call of \<^verbatim>\<open>rollback\<close> in the handler is not guarded, so
  the exception leaves \<^verbatim>\<open>produce_pg_batch\<close> without a return value or a printed line, and
  \<^verbatim>\<open>run\<close>, which catches the keyboard interrupt only, ends with it.
\<close>

theorem produce_pg_batch_rollback_counterexample:
  "execute_raises (quiet\<lparr>execute_raises := Some ''server closed the connection'',
                        rollback_raises := Some ''connection already closed''\<rparr>)
     = Some ''server closed the connection''
   \<and> produce_pg_batch (quiet\<lparr>execute_raises := Some ''server closed the connection'',
                              rollback_raises := Some ''connection already closed''\<rparr>)
        2 (new_producer Pg Skip_locked 200 1)
      = Inl (BackendError ''connection already closed'')
   \<and> run [quiet\<lparr>execute_raises := Some ''server closed the connection'',
                  rollback_raises := Some ''connection already closed''\<rparr>, quiet]
        (new_producer Pg Skip_locked 200 1)
      = Some (Inl (BackendError ''connection already closed''))"
proof -
  let ?e = "quiet\<lparr>execute_raises := Some ''server closed the connection'',
                   rollback_raises := Some ''connection already closed''\<rparr>"
  let ?p = "new_producer Pg Skip_locked 200 1"
  have b: "produce_pg_batch ?e 2 ?p = Inl (BackendError ''connection already closed'')"
    by (simp add: produce_pg_batch_def pg_batch_failed_def Let_def)
  have f: "rate ?p = 200" "backend ?p = Pg" "jobs_produced ?p < total_jobs ?p"
    by (simp_all add: new_producer_def)
  have l: "run_loop 2 [?e, quiet] ?p = Some (Inl (BackendError ''connection already closed''))"
    using b f by (simp add: produce_batch_def)
  have r: "run [?e, quiet] ?p = Some (Inl (BackendError ''connection already closed''))"
    using l f(1) by (simp add: run_def py_truediv_def Let_def)
  show ?thesis using b r by simp
qed

section \<open>Properties of the Valkey worker\<close>

lemma process_entry_good:
  "created \<noteq> Garbled \<Longrightarrow> \<exists>l t. process_entry clk n created = Inr (l, t)"
  by (cases created) (simp_all add: process_entry_def)

lemma process_entry_garbled: "process_entry clk n Garbled = Inl ValueError"
  by (simp add: process_entry_def)

text \<open>
  What the loop over the entries of a stream does: the ids of the entries that do not
  raise are appended in order, one latency is appended for each of them, the worker's
  own count goes up by their number, one line is printed for each entry that raises,
  and neither the server nor the collector nor the list of calls is touched.
\<close>

lemma process_stream_messages_result:
  "\<exists>w' lats'. process_stream_messages e ms (w, ids, lats)
       = (w', ids @ map fst (filter (\<lambda>m. snd m \<noteq> Garbled) ms), lats @ lats')
     \<and> length lats' = length (filter (\<lambda>m. snd m \<noteq> Garbled) ms)
     \<and> worker_jobs_processed w'
         = worker_jobs_processed w + int (length (filter (\<lambda>m. snd m \<noteq> Garbled) ms))
     \<and> log_lines w' = log_lines w
         @ map (\<lambda>m. Error_processing_message (fst m)) (filter (\<lambda>m. snd m = Garbled) ms)
     \<and> calls w' = calls w \<and> valkey_server w' = valkey_server w
     \<and> shared_metrics w' = shared_metrics w \<and> batch_size w' = batch_size w"
proof (induction ms arbitrary: w ids lats)
  case Nil
  show ?case by simp
next
  case (Cons m ms)
  obtain i c where m: "m = (i, c)" by (cases m)
  show ?case
  proof (cases "c = Garbled")
    case True
    let ?w1 = "w\<lparr>log_lines := log_lines w @ [Error_processing_message i]\<rparr>"
    from Cons.IH [of ?w1 ids lats] obtain w' lats' where
      r: "process_stream_messages e ms (?w1, ids, lats)
           = (w', ids @ map fst (filter (\<lambda>m. snd m \<noteq> Garbled) ms), lats @ lats')"
        "length lats' = length (filter (\<lambda>m. snd m \<noteq> Garbled) ms)"
        "worker_jobs_processed w'
           = worker_jobs_processed ?w1 + int (length (filter (\<lambda>m. snd m \<noteq> Garbled) ms))"
        "log_lines w' = log_lines ?w1
           @ map (\<lambda>m. Error_processing_message (fst m)) (filter (\<lambda>m. snd m = Garbled) ms)"
        "calls w' = calls ?w1" "valkey_server w' = valkey_server ?w1"
        "shared_metrics w' = shared_metrics ?w1" "batch_size w' = batch_size ?w1"
      by blast
    have "process_stream_messages e (m # ms) (w, ids, lats)
        = process_stream_messages e ms (?w1, ids, lats)"
      using True m by (simp add: process_entry_garbled)
    with r True m show ?thesis by simp
  next
    case False
    from process_entry_good [OF False] obtain l t
      where lt: "process_entry (now e) (clock_reads w) c = Inr (l, t)" by blast
    let ?w1 = "w\<lparr>clock_reads := t, worker_jobs_processed := worker_jobs_processed w + 1\<rparr>"
    from Cons.IH [of ?w1 "ids @ [i]" "lats @ [l]"] obtain w' lats' where
      r: "process_stream_messages e ms (?w1, ids @ [i], lats @ [l])
           = (w', (ids @ [i]) @ map fst (filter (\<lambda>m. snd m \<noteq> Garbled) ms),
              (lats @ [l]) @ lats')"
        "length lats' = length (filter (\<lambda>m. snd m \<noteq> Garbled) ms)"
        "worker_jobs_processed w'
           = worker_jobs_processed ?w1 + int (length (filter (\<lambda>m. snd m \<noteq> Garbled) ms))"
        "log_lines w' = log_lines ?w1
           @ map (\<lambda>m. Error_processing_message (fst m)) (filter (\<lambda>m. snd m = Garbled) ms)"
        "calls w' = calls ?w1" "valkey_server w' = valkey_server ?w1"
        "shared_metrics w' = shared_metrics ?w1" "batch_size w' = batch_size ?w1"
      by blast
    have s: "process_stream_messages e (m # ms) (w, ids, lats)
        = process_stream_messages e ms (?w1, ids @ [i], lats @ [l])"
      using m lt by simp
    show ?thesis
      apply (rule exI [of _ w'])
      apply (rule exI [of _ "l # lats'"])
      using s r False m by simp
  qed
qed

lemma process_stream_messages_now:
  "now e' = now e \<Longrightarrow> process_stream_messages e' ms acc = process_stream_messages e ms acc"
proof (induction ms arbitrary: acc)
  case Nil
  show ?case by simp
next
  case (Cons m ms)
  obtain i c where m: "m = (i, c)" by (cases m)
  obtain w ids lats where acc: "acc = (w, ids, lats)" by (cases acc)
  show ?case
    unfolding m acc using Cons.prems Cons.IH [OF Cons.prems]
    by (simp split: sum.splits prod.splits)
qed

lemma process_streams_now:
  "now e' = now e \<Longrightarrow> process_streams e' ss acc = process_streams e ss acc"
proof (induction ss arbitrary: acc)
  case Nil
  show ?case by simp
next
  case (Cons s ss)
  obtain n ms where s: "s = (n, ms)" by (cases s)
  show ?case
    unfolding s using Cons.IH [OF Cons.prems] process_stream_messages_now [OF Cons.prems]
    by simp
qed

text \<open>The acknowledge step touches the server, the calls and the printed lines only.\<close>

lemma acknowledge_keeps:
  "shared_metrics (acknowledge e line ids w) = shared_metrics w
   \<and> worker_jobs_processed (acknowledge e line ids w) = worker_jobs_processed w
   \<and> clock_reads (acknowledge e line ids w) = clock_reads w"
  by (simp add: acknowledge_def xack_def Let_def split: option.splits)

lemma acknowledge_calls:
  "calls (acknowledge e line ids w) = calls w @ (if ids = [] then [] else [XAck ids])"
  by (simp add: acknowledge_def xack_def Let_def split: option.splits)

lemma acknowledge_pending:
  "pending (valkey_server (acknowledge e line ids w)) =
     (if ids \<noteq> [] \<and> xack_raises e = None
      then filter (\<lambda>i. i \<notin> set ids) (pending (valkey_server w))
      else pending (valkey_server w))"
  by (simp add: acknowledge_def xack_def Let_def split: option.splits)

lemma acknowledge_log:
  "log_lines (acknowledge e line ids w) =
     log_lines w @ (case xack_raises e of
                      Some msg \<Rightarrow> if ids = [] then [] else [line msg]
                    | None \<Rightarrow> [])"
  by (simp add: acknowledge_def xack_def Let_def split: option.splits)

lemma acknowledge_group:
  "group_exists (valkey_server (acknowledge e line ids w)) = group_exists (valkey_server w)"
  by (simp add: acknowledge_def xack_def Let_def split: option.splits)

lemma record_batch_keeps:
  "valkey_server (record_batch lats w) = valkey_server w
   \<and> calls (record_batch lats w) = calls w
   \<and> log_lines (record_batch lats w) = log_lines w
   \<and> worker_jobs_processed (record_batch lats w) = worker_jobs_processed w"
  by (simp add: record_batch_def)

lemma record_batch_metrics:
  "jobs_processed (shared_metrics (record_batch lats w))
     = jobs_processed (shared_metrics w) + int (length lats)
   \<and> latencies (shared_metrics (record_batch lats w)) = latencies (shared_metrics w) @ lats"
  by (simp add: record_batch_def record_jobs_def)

text \<open>A fetch that returns: what \<^verbatim>\<open>process_messages\<close> does with the delivered entries.\<close>

lemma process_messages_fetched:
  assumes "group_exists (valkey_server w)" and "xreadgroup_raises e = None"
  defines "delivered \<equiv> take (nat (batch_size w)) (incoming e)"
  defines "good \<equiv> filter (\<lambda>m. snd m \<noteq> Garbled) delivered"
  shows "\<exists>w' lats. process_messages e w = (int (length good), w')
    \<and> length lats = length good
    \<and> latencies (shared_metrics w') = latencies (shared_metrics w) @ lats
    \<and> jobs_processed (shared_metrics w') = jobs_processed (shared_metrics w) + int (length good)
    \<and> worker_jobs_processed w' = worker_jobs_processed w + int (length good)
    \<and> calls w' = calls w @ [XReadGroup] @ (if good = [] then [] else [XAck (map fst good)])
    \<and> pending (valkey_server w') =
         (if good \<noteq> [] \<and> xack_raises e = None
          then filter (\<lambda>i. i \<notin> set (map fst good))
                 (pending (valkey_server w) @ map fst delivered)
          else pending (valkey_server w) @ map fst delivered)
    \<and> log_lines w' = log_lines w
         @ map (\<lambda>m. Error_processing_message (fst m)) (filter (\<lambda>m. snd m = Garbled) delivered)
         @ (case xack_raises e of
              Some msg \<Rightarrow> if good = [] then [] else [Error_acknowledging_batch msg]
            | None \<Rightarrow> [])"
proof -
  let ?w1 = "w\<lparr>calls := calls w @ [XReadGroup],
               valkey_server := (valkey_server w)
                  \<lparr>pending := pending (valkey_server w) @ map fst delivered\<rparr>\<rparr>"
  have rd: "xreadgroup e w
      = (Inr (if delivered = [] then [] else [(''bench_queue'', delivered)]), ?w1)"
    using assms(1,2) by (simp add: xreadgroup_def Let_def delivered_def)
  show ?thesis
  proof (cases "delivered = []")
    case True
    then have "good = []" by (simp add: good_def)
    with True rd show ?thesis
      by (simp add: process_messages_def split: option.splits)
  next
    case False
    from process_stream_messages_result [of e delivered ?w1 "[]" "[]"]
    obtain w2 lats where
      r: "process_stream_messages e delivered (?w1, [], []) = (w2, map fst good, lats)"
        "length lats = length good"
        "worker_jobs_processed w2 = worker_jobs_processed ?w1 + int (length good)"
        "log_lines w2 = log_lines ?w1
           @ map (\<lambda>m. Error_processing_message (fst m)) (filter (\<lambda>m. snd m = Garbled) delivered)"
        "calls w2 = calls ?w1" "valkey_server w2 = valkey_server ?w1"
        "shared_metrics w2 = shared_metrics ?w1"
      unfolding good_def by auto
    let ?w3 = "acknowledge e Error_acknowledging_batch (map fst good) w2"
    let ?w4 = "record_batch lats ?w3"
    have pm: "process_messages e w = (int (length good), ?w4)"
      using rd False r(1) by (simp add: process_messages_def)
    have "latencies (shared_metrics ?w4) = latencies (shared_metrics w) @ lats"
      using record_batch_metrics [of lats ?w3] acknowledge_keeps [of e _ "map fst good" w2] r(7)
      by simp
    moreover have "jobs_processed (shared_metrics ?w4)
        = jobs_processed (shared_metrics w) + int (length good)"
      using record_batch_metrics [of lats ?w3] acknowledge_keeps [of e _ "map fst good" w2]
        r(7) r(2)
      by simp
    moreover have "worker_jobs_processed ?w4 = worker_jobs_processed w + int (length good)"
      using record_batch_keeps [of lats ?w3] acknowledge_keeps [of e _ "map fst good" w2] r(3)
      by simp
    moreover have "calls ?w4
        = calls w @ [XReadGroup] @ (if good = [] then [] else [XAck (map fst good)])"
      using record_batch_keeps [of lats ?w3] acknowledge_calls [of e _ "map fst good" w2] r(5)
      by simp
    moreover have "pending (valkey_server ?w4) =
         (if good \<noteq> [] \<and> xack_raises e = None
          then filter (\<lambda>i. i \<notin> set (map fst good))
                 (pending (valkey_server w) @ map fst delivered)
          else pending (valkey_server w) @ map fst delivered)"
      using record_batch_keeps [of lats ?w3] acknowledge_pending [of e _ "map fst good" w2] r(6)
      by simp
    moreover have "log_lines ?w4 = log_lines w
         @ map (\<lambda>m. Error_processing_message (fst m)) (filter (\<lambda>m. snd m = Garbled) delivered)
         @ (case xack_raises e of
              Some msg \<Rightarrow> if good = [] then [] else [Error_acknowledging_batch msg]
            | None \<Rightarrow> [])"
      using record_batch_keeps [of lats ?w3] acknowledge_log [of e _ "map fst good" w2] r(4)
      by (simp split: option.splits)
    ultimately show ?thesis using pm r(2) by blast
  qed
qed

lemma sample_worker_eq:
  "sample_worker =
     \<lparr>worker_id = ''worker_0'', batch_size = 50, worker_jobs_processed = 0,
      shared_metrics = new_collector ''metrics_valkey.jsonl'' 0,
      valkey_server = \<lparr>group_exists = True, pending = []\<rparr>,
      clock_reads = 0, log_lines = [], calls = [XGroupCreate]\<rparr>"
  by (simp add: sample_worker_def new_valkey_worker_def xgroup_create_def idle_iteration_def
      decimal.simps [of 0])

lemma not_in_filtered: "i \<in> S \<Longrightarrow> i \<notin> set (filter (\<lambda>j. j \<notin> S) xs)"
  by simp

text \<open>
  Claim C6. Let a fetch deliver a batch in which exactly one entry raises during
  processing, the ids of the batch being pairwise different. Then \<^verbatim>\<open>process_messages\<close>
  makes at most one \<^verbatim>\<open>xack\<close> call, whose arguments are the ids of all the other
  entries in order (none if there is no other entry); the failed id is not among them
  and is still pending afterwards; if the \<^verbatim>\<open>xack\<close> call returns, none of the other
  entries is pending any more. The return value and the worker's count are the number
  of the other entries, and the error is printed.
\<close>

theorem partial_batch_failure:
  assumes "group_exists (valkey_server w)" and "xreadgroup_raises e = None"
    and "take (nat (batch_size w)) (incoming e) = before @ (failed, Garbled) # after"
    and "\<forall>m \<in> set (before @ after). snd m \<noteq> Garbled"
    and "distinct (map fst (before @ (failed, Garbled) # after))"
  shows "\<exists>w'. process_messages e w = (int (length (before @ after)), w')
    \<and> calls w' = calls w @ [XReadGroup]
         @ (if before @ after = [] then [] else [XAck (map fst (before @ after))])
    \<and> failed \<notin> set (map fst (before @ after))
    \<and> failed \<in> set (pending (valkey_server w'))
    \<and> (xack_raises e = None \<longrightarrow>
         (\<forall>i \<in> set (map fst (before @ after)). i \<notin> set (pending (valkey_server w'))))
    \<and> Error_processing_message failed \<in> set (log_lines w')
    \<and> worker_jobs_processed w' = worker_jobs_processed w + int (length (before @ after))"
proof -
  let ?delivered = "before @ (failed, Garbled) # after"
  have g: "filter (\<lambda>m. snd m \<noteq> Garbled) ?delivered = before @ after"
    using assms(4) by (simp add: filter_id_conv)
  have b: "(failed, Garbled) \<in> set (filter (\<lambda>m. snd m = Garbled) ?delivered)"
    by simp
  have nf: "failed \<notin> set (map fst (before @ after))"
    using assms(5) by auto
  from process_messages_fetched [OF assms(1,2)]
  obtain w' where w': "process_messages e w = (int (length (before @ after)), w')"
      "worker_jobs_processed w' = worker_jobs_processed w + int (length (before @ after))"
      "calls w' = calls w @ [XReadGroup]
         @ (if before @ after = [] then [] else [XAck (map fst (before @ after))])"
      "pending (valkey_server w') =
         (if before @ after \<noteq> [] \<and> xack_raises e = None
          then filter (\<lambda>i. i \<notin> set (map fst (before @ after)))
                 (pending (valkey_server w) @ map fst ?delivered)
          else pending (valkey_server w) @ map fst ?delivered)"
      "log_lines w' = log_lines w
         @ map (\<lambda>m. Error_processing_message (fst m)) (filter (\<lambda>m. snd m = Garbled) ?delivered)
         @ (case xack_raises e of
              Some msg \<Rightarrow> if before @ after = [] then [] else [Error_acknowledging_batch msg]
            | None \<Rightarrow> [])"
    unfolding assms(3) g by blast
  have p: "failed \<in> set (pending (valkey_server w'))"
    unfolding w'(4) using nf by simp
  have a: "xack_raises e = None \<longrightarrow>
         (\<forall>i \<in> set (map fst (before @ after)). i \<notin> set (pending (valkey_server w')))"
  proof (intro impI ballI)
    fix i assume x: "xack_raises e = None" and i: "i \<in> set (map fst (before @ after))"
    then have ne: "before @ after \<noteq> []" by auto
    have "i \<notin> set (filter (\<lambda>j. j \<notin> set (map fst (before @ after)))
                 (pending (valkey_server w) @ map fst ?delivered))"
      by (rule not_in_filtered [OF i])
    then show "i \<notin> set (pending (valkey_server w'))"
      unfolding w'(4) using ne x by simp
  qed
  have l: "Error_processing_message failed \<in> set (log_lines w')"
  proof -
    have "Error_processing_message (fst (failed, Garbled))
        \<in> set (map (\<lambda>m. Error_processing_message (fst m))
                 (filter (\<lambda>m. snd m = Garbled) ?delivered))"
      unfolding set_map using b by (rule imageI)
    then show ?thesis unfolding w'(5) by simp
  qed
  show ?thesis
    by (intro exI [of _ w'] conjI w'(1) w'(3) nf p a l w'(2))
qed

theorem partial_batch_failure_witness:
  "fst (process_messages sample_iteration sample_worker) = 2
   \<and> calls (snd (process_messages sample_iteration sample_worker))
       = [XGroupCreate, XReadGroup, XAck [''1-0'', ''3-0'']]
   \<and> ''2-0'' \<in> set (pending (valkey_server (snd (process_messages sample_iteration sample_worker))))
   \<and> ''1-0'' \<notin> set (pending (valkey_server (snd (process_messages sample_iteration sample_worker))))
   \<and> ''3-0'' \<notin> set (pending (valkey_server (snd (process_messages sample_iteration sample_worker))))"
proof -
  have h1: "group_exists (valkey_server sample_worker)"
    by (simp add: sample_worker_eq)
  have h2: "xreadgroup_raises sample_iteration = None"
    by (simp add: sample_iteration_def idle_iteration_def)
  have h3: "take (nat (batch_size sample_worker)) (incoming sample_iteration)
      = [(''1-0'', Iso 0)] @ (''2-0'', Garbled) # [(''3-0'', Absent)]"
    by (simp add: sample_worker_eq sample_iteration_def)
  have h4: "\<forall>m \<in> set ([(''1-0'', Iso 0)] @ [(''3-0'', Absent)]). snd m \<noteq> Garbled"
    by simp
  have h5: "distinct (map fst ([(''1-0'', Iso 0)] @ (''2-0'', Garbled) # [(''3-0'', Absent)]))"
    by simp
  have x: "xack_raises sample_iteration = None"
    by (simp add: sample_iteration_def idle_iteration_def)
  from partial_batch_failure [OF h1 h2 h3 h4 h5] x
  obtain w' where w': "process_messages sample_iteration sample_worker = (2, w')"
      "calls w' = calls sample_worker @ [XReadGroup] @ [XAck [''1-0'', ''3-0'']]"
      "''2-0'' \<in> set (pending (valkey_server w'))"
      "''1-0'' \<notin> set (pending (valkey_server w'))"
      "''3-0'' \<notin> set (pending (valkey_server w'))"
    by auto
  have c: "calls sample_worker = [XGroupCreate]" by (simp add: sample_worker_eq)
  show ?thesis using w' c by simp
qed

lemma xreadgroup_ack_independent: "xreadgroup (e\<lparr>xack_raises := x\<rparr>) w = xreadgroup e w"
  by (simp add: xreadgroup_def Let_def split: option.splits)

lemma xgroup_create_ack_independent:
  "xgroup_create (e\<lparr>xack_raises := x\<rparr>) w = xgroup_create e w"
  by (simp add: xgroup_create_def Let_def split: option.splits)

lemma process_messages_ack_independent:
  "shared_metrics (snd (process_messages (e\<lparr>xack_raises := x\<rparr>) w))
     = shared_metrics (snd (process_messages e w))
   \<and> worker_jobs_processed (snd (process_messages (e\<lparr>xack_raises := x\<rparr>) w))
     = worker_jobs_processed (snd (process_messages e w))
   \<and> fst (process_messages (e\<lparr>xack_raises := x\<rparr>) w) = fst (process_messages e w)"
proof -
  let ?e = "e\<lparr>xack_raises := x\<rparr>"
  obtain r w1 where rd: "xreadgroup e w = (r, w1)" by (cases "xreadgroup e w")
  then have rd': "xreadgroup ?e w = (r, w1)" by (simp add: xreadgroup_ack_independent)
  show ?thesis
  proof (cases r)
    case (Inl msg)
    then show ?thesis
      using rd rd' by (simp add: process_messages_def xgroup_create_ack_independent)
  next
    case (Inr messages)
    show ?thesis
    proof (cases "messages = []")
      case True
      then show ?thesis using rd rd' Inr by (simp add: process_messages_def)
    next
      case False
      obtain w2 ids lats where ps: "process_streams e messages (w1, [], []) = (w2, ids, lats)"
        by (cases "process_streams e messages (w1, [], [])")
      have ps': "process_streams ?e messages (w1, [], []) = (w2, ids, lats)"
        using ps process_streams_now [of ?e e] by simp
      have a: "process_messages e w
          = (int (length ids), record_batch lats (acknowledge e Error_acknowledging_batch ids w2))"
        using rd Inr False ps by (simp add: process_messages_def)
      have b: "process_messages ?e w
          = (int (length ids), record_batch lats (acknowledge ?e Error_acknowledging_batch ids w2))"
        using rd' Inr False ps' by (simp add: process_messages_def)
      show ?thesis
        unfolding a b
        using acknowledge_keeps [of e Error_acknowledging_batch ids w2]
          acknowledge_keeps [of ?e Error_acknowledging_batch ids w2]
        by (simp add: record_batch_def)
    qed
  qed
qed

text \<open>
  Claim C9. When the batched \<^verbatim>\<open>xack\<close> call raises, the latencies of the entries that
  were processed are recorded in the collector all the same, the collector's counter and
  the worker's own count go up by their number, and that number is returned: the
  collector, the count and the return value are what they are when \<^verbatim>\<open>xack\<close> returns.
  Only the acknowledgement is missing: the entries delivered stay pending and the error
  is printed.
\<close>

theorem metrics_recorded_when_ack_raises:
  assumes "group_exists (valkey_server w)" and "xreadgroup_raises e = None"
    and "xack_raises e = Some msg"
  shows "\<exists>w' lats.
      process_messages e w
        = (int (length (filter (\<lambda>m. snd m \<noteq> Garbled) (take (nat (batch_size w)) (incoming e)))),
           w')
    \<and> length lats
        = length (filter (\<lambda>m. snd m \<noteq> Garbled) (take (nat (batch_size w)) (incoming e)))
    \<and> latencies (shared_metrics w') = latencies (shared_metrics w) @ lats
    \<and> jobs_processed (shared_metrics w') = jobs_processed (shared_metrics w) + int (length lats)
    \<and> worker_jobs_processed w' = worker_jobs_processed w + int (length lats)
    \<and> shared_metrics w' = shared_metrics (snd (process_messages (e\<lparr>xack_raises := None\<rparr>) w))
    \<and> worker_jobs_processed w'
        = worker_jobs_processed (snd (process_messages (e\<lparr>xack_raises := None\<rparr>) w))
    \<and> fst (process_messages (e\<lparr>xack_raises := None\<rparr>) w) = int (length lats)
    \<and> pending (valkey_server w')
        = pending (valkey_server w) @ map fst (take (nat (batch_size w)) (incoming e))
    \<and> (lats \<noteq> [] \<longrightarrow> Error_acknowledging_batch msg \<in> set (log_lines w'))"
proof -
  let ?good = "filter (\<lambda>m. snd m \<noteq> Garbled) (take (nat (batch_size w)) (incoming e))"
  from process_messages_fetched [OF assms(1,2)]
  obtain w' lats where w': "process_messages e w = (int (length ?good), w')"
      "length lats = length ?good"
      "latencies (shared_metrics w') = latencies (shared_metrics w) @ lats"
      "jobs_processed (shared_metrics w') = jobs_processed (shared_metrics w) + int (length ?good)"
      "worker_jobs_processed w' = worker_jobs_processed w + int (length ?good)"
      "pending (valkey_server w') =
         (if ?good \<noteq> [] \<and> xack_raises e = None
          then filter (\<lambda>i. i \<notin> set (map fst ?good))
                 (pending (valkey_server w) @ map fst (take (nat (batch_size w)) (incoming e)))
          else pending (valkey_server w) @ map fst (take (nat (batch_size w)) (incoming e)))"
      "log_lines w' = log_lines w
         @ map (\<lambda>m. Error_processing_message (fst m))
             (filter (\<lambda>m. snd m = Garbled) (take (nat (batch_size w)) (incoming e)))
         @ (case xack_raises e of
              Some msg \<Rightarrow> if ?good = [] then [] else [Error_acknowledging_batch msg]
            | None \<Rightarrow> [])"
    by blast
  note ind = process_messages_ack_independent [where e = e and x = None and w = w]
  have 4: "jobs_processed (shared_metrics w') = jobs_processed (shared_metrics w) + int (length lats)"
    using w'(4) w'(2) by simp
  have 5: "worker_jobs_processed w' = worker_jobs_processed w + int (length lats)"
    using w'(5) w'(2) by simp
  have 6: "shared_metrics w' = shared_metrics (snd (process_messages (e\<lparr>xack_raises := None\<rparr>) w))"
    using ind w'(1) by simp
  have 7: "worker_jobs_processed w'
        = worker_jobs_processed (snd (process_messages (e\<lparr>xack_raises := None\<rparr>) w))"
    using ind w'(1) by simp
  have 8: "fst (process_messages (e\<lparr>xack_raises := None\<rparr>) w) = int (length lats)"
    using ind w'(1) w'(2) by simp
  have 9: "pending (valkey_server w')
        = pending (valkey_server w) @ map fst (take (nat (batch_size w)) (incoming e))"
    using w'(6) assms(3) by simp
  have 10: "lats \<noteq> [] \<longrightarrow> Error_acknowledging_batch msg \<in> set (log_lines w')"
  proof
    assume "lats \<noteq> []"
    then have "?good \<noteq> []" using w'(2) by auto
    then show "Error_acknowledging_batch msg \<in> set (log_lines w')"
      unfolding w'(7) using assms(3) by simp
  qed
  show ?thesis
    by (intro exI [of _ w'] exI [of _ lats] conjI w'(1) w'(2) w'(3) 4 5 6 7 8 9 10)
qed

theorem metrics_recorded_when_ack_raises_witness:
  "xack_raises (sample_iteration\<lparr>xack_raises := Some ''timeout''\<rparr>) = Some ''timeout''
   \<and> fst (process_messages (sample_iteration\<lparr>xack_raises := Some ''timeout''\<rparr>) sample_worker) = 2
   \<and> jobs_processed (shared_metrics
        (snd (process_messages (sample_iteration\<lparr>xack_raises := Some ''timeout''\<rparr>) sample_worker)))
       = 2
   \<and> length (latencies (shared_metrics
        (snd (process_messages (sample_iteration\<lparr>xack_raises := Some ''timeout''\<rparr>) sample_worker))))
       = 2
   \<and> worker_jobs_processed
        (snd (process_messages (sample_iteration\<lparr>xack_raises := Some ''timeout''\<rparr>) sample_worker))
       = 2
   \<and> pending (valkey_server
        (snd (process_messages (sample_iteration\<lparr>xack_raises := Some ''timeout''\<rparr>) sample_worker)))
       = [''1-0'', ''2-0'', ''3-0'']"
proof -
  let ?e = "sample_iteration\<lparr>xack_raises := Some ''timeout''\<rparr>"
  have h1: "group_exists (valkey_server sample_worker)"
    by (simp add: sample_worker_eq)
  have h2: "xreadgroup_raises ?e = None"
    by (simp add: sample_iteration_def idle_iteration_def)
  have h3: "xack_raises ?e = Some ''timeout''" by simp
  have d: "take (nat (batch_size sample_worker)) (incoming ?e)
      = [(''1-0'', Iso 0), (''2-0'', Garbled), (''3-0'', Absent)]"
    by (simp add: sample_worker_eq sample_iteration_def)
  have s: "latencies (shared_metrics sample_worker) = []"
      "jobs_processed (shared_metrics sample_worker) = 0"
      "worker_jobs_processed sample_worker = 0"
      "pending (valkey_server sample_worker) = []"
    by (simp_all add: sample_worker_eq new_collector_def)
  let ?good = "filter (\<lambda>m. snd m \<noteq> Garbled) [(''1-0'', Iso 0), (''2-0'', Garbled), (''3-0'', Absent)]"
  from metrics_recorded_when_ack_raises [OF h1 h2 h3, unfolded d s]
  obtain w' lats where w': "process_messages ?e sample_worker = (int (length ?good), w')"
      "length lats = length ?good"
      "latencies (shared_metrics w') = [] @ lats"
      "jobs_processed (shared_metrics w') = 0 + int (length lats)"
      "worker_jobs_processed w' = 0 + int (length lats)"
      "pending (valkey_server w') = [] @ map fst [(''1-0'', Iso 0), (''2-0'', Garbled), (''3-0'', Absent)]"
    by blast
  have g: "length ?good = 2" by simp
  show ?thesis using w' h3 g by simp
qed

lemma nogroup_in_message: "py_in ''NOGROUP'' nogroup_message"
  unfolding py_in_def nogroup_message_def by (rule sublist_append_rightI)

lemma busygroup_in_message: "py_in ''BUSYGROUP'' busygroup_message"
  unfolding py_in_def busygroup_message_def by (rule sublist_append_rightI)

lemma xreadgroup_no_group:
  "\<not> group_exists (valkey_server w) \<Longrightarrow> xreadgroup_raises e = None \<Longrightarrow>
   xreadgroup e w = (Inl nogroup_message, w\<lparr>calls := calls w @ [XReadGroup]\<rparr>)"
  by (simp add: xreadgroup_def Let_def)

lemma xreadgroup_raised:
  "fst (xreadgroup e w) = Inl msg \<Longrightarrow>
   xreadgroup e w = (Inl msg, w\<lparr>calls := calls w @ [XReadGroup]\<rparr>)"
  by (auto simp: xreadgroup_def Let_def split: option.splits if_splits)

lemma xgroup_create_server:
  "valkey_server (snd (xgroup_create e w)) =
     (if xgroup_create_raises e = None then (valkey_server w)\<lparr>group_exists := True\<rparr>
      else valkey_server w)"
  by (simp add: xgroup_create_def Let_def split: option.splits)

lemma xgroup_create_keeps:
  "calls (snd (xgroup_create e w)) = calls w @ [XGroupCreate]
   \<and> log_lines (snd (xgroup_create e w)) = log_lines w
   \<and> worker_jobs_processed (snd (xgroup_create e w)) = worker_jobs_processed w
   \<and> shared_metrics (snd (xgroup_create e w)) = shared_metrics w
   \<and> batch_size (snd (xgroup_create e w)) = batch_size w"
  by (simp add: xgroup_create_def Let_def split: option.splits)

lemma xgroup_create_existing:
  "group_exists (valkey_server w) \<Longrightarrow> xgroup_create_raises e = None \<Longrightarrow>
   xgroup_create e w = (Inl busygroup_message, w\<lparr>calls := calls w @ [XGroupCreate]\<rparr>)"
  by (simp add: xgroup_create_def Let_def)

text \<open>
  Claim C8. When the fetch raises an error whose message contains \<^verbatim>\<open>NOGROUP\<close> (as it
  does whenever the server has no such consumer group), \<^verbatim>\<open>process_messages\<close> calls
  \<^verbatim>\<open>xgroup_create\<close> once, drops whatever that call raises, and returns 0 with the worker's
  count, the collector and the pending entries untouched; unless the creation itself
  fails the group exists afterwards. The loop of \<^verbatim>\<open>run\<close> goes on with the next
  iteration, in which a fetch that the client lets through is served again. Creating
  the group is idempotent: on a server that has the group the call changes nothing and
  raises \<^verbatim>\<open>BUSYGROUP\<close>, on which the constructor prints no warning.
\<close>

theorem nogroup_recreates_group:
  assumes "fst (xreadgroup e w) = Inl msg" and "py_in ''NOGROUP'' msg"
  shows "\<exists>w'. process_messages e w = (0, w')
    \<and> calls w' = calls w @ [XReadGroup, XGroupCreate]
    \<and> log_lines w' = log_lines w @ [Consumer_group_not_found]
    \<and> valkey_server w' =
         (if xgroup_create_raises e = None then (valkey_server w)\<lparr>group_exists := True\<rparr>
          else valkey_server w)
    \<and> (xgroup_create_raises e = None \<longrightarrow> group_exists (valkey_server w'))
    \<and> worker_jobs_processed w' = worker_jobs_processed w
    \<and> shared_metrics w' = shared_metrics w
    \<and> pending (valkey_server w') = pending (valkey_server w)
    \<and> run_worker (e # es) (claim_counter, w)
        = run_worker es (if claim_counter + 1 \<ge> 10
                         then (0, snd (claim_pending_messages e w'))
                         else (claim_counter + 1, w'))
    \<and> (xgroup_create_raises e = None \<and> xreadgroup_raises e2 = None \<longrightarrow>
          fst (process_messages e2 w')
            = int (length (filter (\<lambda>m. snd m \<noteq> Garbled)
                             (take (nat (batch_size w)) (incoming e2)))))
    \<and> (xgroup_create_raises e = None \<longrightarrow>
          xgroup_create e w' = (Inl busygroup_message, w'\<lparr>calls := calls w' @ [XGroupCreate]\<rparr>)
          \<and> py_in ''BUSYGROUP'' busygroup_message)
    \<and> (xgroup_create_raises e = None \<and> group_exists srv \<longrightarrow>
          log_lines (new_valkey_worker e n c size0 srv) = []
          \<and> valkey_server (new_valkey_worker e n c size0 srv) = srv)
    \<and> (\<not> group_exists (valkey_server w) \<and> xreadgroup_raises e = None \<longrightarrow>
          msg = nogroup_message)"
proof -
  let ?w1 = "w\<lparr>calls := calls w @ [XReadGroup]\<rparr>"
  let ?w' = "snd (xgroup_create e (?w1\<lparr>log_lines := log_lines ?w1 @ [Consumer_group_not_found]\<rparr>))"
  have rd: "xreadgroup e w = (Inl msg, ?w1)" by (rule xreadgroup_raised [OF assms(1)])
  have pm: "process_messages e w = (0, ?w')"
    using rd assms(2) by (simp add: process_messages_def)
  have c: "calls ?w' = calls w @ [XReadGroup, XGroupCreate]"
    by (simp add: xgroup_create_keeps)
  have l: "log_lines ?w' = log_lines w @ [Consumer_group_not_found]"
    by (simp add: xgroup_create_keeps)
  have s: "valkey_server ?w' =
         (if xgroup_create_raises e = None then (valkey_server w)\<lparr>group_exists := True\<rparr>
          else valkey_server w)"
    by (simp add: xgroup_create_server)
  have g: "xgroup_create_raises e = None \<longrightarrow> group_exists (valkey_server ?w')"
    using s by simp
  have j: "worker_jobs_processed ?w' = worker_jobs_processed w"
    by (simp add: xgroup_create_keeps)
  have m: "shared_metrics ?w' = shared_metrics w"
    by (simp add: xgroup_create_keeps)
  have b: "batch_size ?w' = batch_size w"
    by (simp add: xgroup_create_keeps)
  have p: "pending (valkey_server ?w') = pending (valkey_server w)"
    using s by simp
  have r: "run_worker (e # es) (claim_counter, w)
        = run_worker es (if claim_counter + 1 \<ge> 10
                         then (0, snd (claim_pending_messages e ?w'))
                         else (claim_counter + 1, ?w'))"
    using pm by simp
  have n: "xgroup_create_raises e = None \<and> xreadgroup_raises e2 = None \<longrightarrow>
          fst (process_messages e2 ?w')
            = int (length (filter (\<lambda>m. snd m \<noteq> Garbled)
                             (take (nat (batch_size w)) (incoming e2))))"
  proof
    assume a: "xgroup_create_raises e = None \<and> xreadgroup_raises e2 = None"
    then have ge: "group_exists (valkey_server ?w')" using g by simp
    from process_messages_fetched [OF ge, of e2] a
    show "fst (process_messages e2 ?w')
            = int (length (filter (\<lambda>m. snd m \<noteq> Garbled)
                             (take (nat (batch_size w)) (incoming e2))))"
      unfolding b by auto
  qed
  have i: "xgroup_create_raises e = None \<longrightarrow>
          xgroup_create e ?w' = (Inl busygroup_message, ?w'\<lparr>calls := calls ?w' @ [XGroupCreate]\<rparr>)
          \<and> py_in ''BUSYGROUP'' busygroup_message"
    using g xgroup_create_existing [of ?w' e] busygroup_in_message by blast
  have k: "xgroup_create_raises e = None \<and> group_exists srv \<longrightarrow>
          log_lines (new_valkey_worker e n c size0 srv) = []
          \<and> valkey_server (new_valkey_worker e n c size0 srv) = srv"
    using busygroup_in_message
    by (simp add: new_valkey_worker_def xgroup_create_def Let_def)
  have q: "\<not> group_exists (valkey_server w) \<and> xreadgroup_raises e = None \<longrightarrow>
          msg = nogroup_message"
  proof
    assume "\<not> group_exists (valkey_server w) \<and> xreadgroup_raises e = None"
    then have "xreadgroup e w = (Inl nogroup_message, ?w1)"
      by (simp add: xreadgroup_no_group)
    with rd show "msg = nogroup_message" by simp
  qed
  show ?thesis
    by (intro exI [of _ ?w'] conjI pm c l s g j m p r n i k q)
qed

theorem nogroup_recreates_group_witness:
  "fst (xreadgroup idle_iteration (sample_worker\<lparr>valkey_server := \<lparr>group_exists = False, pending = []\<rparr>\<rparr>))
     = Inl nogroup_message
   \<and> py_in ''NOGROUP'' nogroup_message
   \<and> fst (process_messages idle_iteration
        (sample_worker\<lparr>valkey_server := \<lparr>group_exists = False, pending = []\<rparr>\<rparr>)) = 0
   \<and> group_exists (valkey_server (snd (process_messages idle_iteration
        (sample_worker\<lparr>valkey_server := \<lparr>group_exists = False, pending = []\<rparr>\<rparr>))))
   \<and> calls (snd (process_messages idle_iteration
        (sample_worker\<lparr>valkey_server := \<lparr>group_exists = False, pending = []\<rparr>\<rparr>)))
       = [XGroupCreate, XReadGroup, XGroupCreate]
   \<and> fst (process_messages sample_iteration (snd (process_messages idle_iteration
        (sample_worker\<lparr>valkey_server := \<lparr>group_exists = False, pending = []\<rparr>\<rparr>)))) = 2"
proof -
  let ?w = "sample_worker\<lparr>valkey_server := \<lparr>group_exists = False, pending = []\<rparr>\<rparr>"
  have h1: "fst (xreadgroup idle_iteration ?w) = Inl nogroup_message"
    by (simp add: xreadgroup_def idle_iteration_def Let_def)
  have x: "xgroup_create_raises idle_iteration = None"
      "xreadgroup_raises sample_iteration = None"
    by (simp_all add: idle_iteration_def sample_iteration_def)
  have f: "calls ?w = [XGroupCreate]" "batch_size ?w = 50"
      "incoming sample_iteration = [(''1-0'', Iso 0), (''2-0'', Garbled), (''3-0'', Absent)]"
    by (simp_all add: sample_worker_eq sample_iteration_def)
  from nogroup_recreates_group [OF h1 nogroup_in_message, where ?e2.0 = sample_iteration]
  obtain w' where w': "process_messages idle_iteration ?w = (0, w')"
      "calls w' = calls ?w @ [XReadGroup, XGroupCreate]"
      "xgroup_create_raises idle_iteration = None \<longrightarrow> group_exists (valkey_server w')"
      "xgroup_create_raises idle_iteration = None \<and> xreadgroup_raises sample_iteration = None \<longrightarrow>
          fst (process_messages sample_iteration w')
            = int (length (filter (\<lambda>m. snd m \<noteq> Garbled)
                             (take (nat (batch_size ?w)) (incoming sample_iteration))))"
    by blast
  have a: "group_exists (valkey_server w')" using w'(3) x by simp
  have b: "fst (process_messages sample_iteration w') = 2"
    using w'(4) x unfolding f by simp
  have c: "calls w' = [XGroupCreate, XReadGroup, XGroupCreate]"
    using w'(2) f(1) by simp
  show ?thesis
    using h1 nogroup_in_message w'(1) a b c by simp
qed










end
